theory Spec2Isabelle
  imports Main
begin

section \<open>Python strings\<close>

text \<open>
  A Python \<open>str\<close> is a sequence of Unicode code points, so it is modelled as a list of
  natural numbers (one per code point) and not as a list of bytes. The literals of
  \<open>Lab2/main.py\<close> are Russian; they are written below code point by code point, with an
  English gloss beside each.
\<close>

type_synonym ustr = "nat list"

text \<open>\<open>" " * indent\<close>: a negative count gives the empty string.\<close>

definition spaces :: "int \<Rightarrow> ustr" where
  "spaces indent = replicate (nat indent) 32"

text \<open>\<open>sep.join(lines)\<close>.\<close>

fun py_join :: "ustr \<Rightarrow> ustr list \<Rightarrow> ustr" where
  "py_join sep [] = []"
| "py_join sep [x] = x"
| "py_join sep (x # y # ys) = x @ sep @ py_join sep (y # ys)"

text \<open>
  \<open>str.isspace\<close> on one character: the characters CPython's \<open>Py_UNICODE_ISSPACE\<close> accepts.
\<close>

definition py_isspace :: "nat \<Rightarrow> bool" where
  "py_isspace c =
     ((9 \<le> c \<and> c \<le> 13) \<or> (28 \<le> c \<and> c \<le> 32) \<or> c = 133 \<or> c = 160 \<or> c = 5760
      \<or> (8192 \<le> c \<and> c \<le> 8202) \<or> c = 8232 \<or> c = 8233 \<or> c = 8239 \<or> c = 8287 \<or> c = 12288)"

text \<open>\<open>s.strip()\<close> with no argument: whitespace is removed at both ends.\<close>

definition strip :: "ustr \<Rightarrow> ustr" where
  "strip s = rev (dropWhile py_isspace (rev (dropWhile py_isspace s)))"

text \<open>
  The Unicode character database behind \<open>str.isdigit\<close> and \<open>int\<close> (Unicode 14.0, as
  shipped with CPython 3.11). \<open>decimal_zeros\<close> lists the code point of digit zero of every
  run of ten decimal digits (property \<open>Decimal\<close>); \<open>digit_only_ranges\<close> lists the
  inclusive ranges of the characters that have the property \<open>Digit\<close> without being
  decimal digits (superscripts, subscripts, circled digits and the like).
\<close>

definition decimal_zeros :: "nat list" where
  "decimal_zeros =
     [48, 1632, 1776, 1984, 2406, 2534, 2662, 2790, 2918, 3046, 3174, 3302, 3430, 3558,
      3664, 3792, 3872, 4160, 4240, 6112, 6160, 6470, 6608, 6784, 6800, 6992, 7088, 7232,
      7248, 42528, 43216, 43264, 43472, 43504, 43600, 44016, 65296, 66720, 68912, 69734,
      69872, 69942, 70096, 70384, 70736, 70864, 71248, 71360, 71472, 71904, 72016, 72784,
      73040, 73120, 92768, 92864, 93008, 120782, 120792, 120802, 120812, 120822, 123200,
      123632, 125264, 130032]"

definition digit_only_ranges :: "(nat \<times> nat) list" where
  "digit_only_ranges =
     [(178, 179), (185, 185), (4969, 4977), (6618, 6618), (8304, 8304), (8308, 8313),
      (8320, 8329), (9312, 9320), (9332, 9340), (9352, 9360), (9450, 9450), (9461, 9469),
      (9471, 9471), (10102, 10110), (10112, 10120), (10122, 10130), (68160, 68163),
      (69216, 69224), (69714, 69722), (127232, 127242)]"

text \<open>\<open>unicodedata.decimal(c)\<close>: the value of a decimal digit, \<open>None\<close> for any other character.\<close>

definition decimal_value :: "nat \<Rightarrow> nat option" where
  "decimal_value c =
     (case find (\<lambda>z. z \<le> c \<and> c < z + 10) decimal_zeros of
        None \<Rightarrow> None
      | Some z \<Rightarrow> Some (c - z))"

definition char_isdigit :: "nat \<Rightarrow> bool" where
  "char_isdigit c =
     (decimal_value c \<noteq> None \<or> list_ex (\<lambda>(lo, hi). lo \<le> c \<and> c \<le> hi) digit_only_ranges)"

text \<open>\<open>s.isdigit()\<close>: false on the empty string.\<close>

definition isdigit :: "ustr \<Rightarrow> bool" where
  "isdigit s = (s \<noteq> [] \<and> list_all char_isdigit s)"

section \<open>Exceptions and the interpreter\<close>

text \<open>
  The exceptions the program can raise. \<open>NotImplementedError\<close> carries its message.
  \<open>InvalidReference\<close> has no Python counterpart: it is the result of following an
  address that holds no object, which a Python reference never does.
\<close>

datatype error =
    NotImplementedError string
  | ValueError
  | KeyError
  | EOFError
  | RecursionError
  | InvalidReference

text \<open>
  What the program takes from the interpreter and not from its own text:
  \<open>str.capitalize\<close> (its case tables are part of the interpreter), the limit
  \<open>sys.get_int_max_str_digits()\<close> on the digits \<open>int\<close> converts (0 switches it off; 4300 by
  default from CPython 3.11 on; older interpreters have no limit), and the call depth
  left for \<open>display\<close> under \<open>sys.getrecursionlimit()\<close>.
\<close>

record runtime =
  capitalize :: "ustr \<Rightarrow> ustr"
  int_max_str_digits :: nat
  recursion_limit :: nat

text \<open>
  \<open>int(s)\<close> on the strings line 107 passes to it: stripped, and accepted by \<open>isdigit\<close>
  (line 104). Such a string has no sign, no underscore and no blank, so \<open>int\<close> succeeds
  exactly when every character is a decimal digit and the digit limit is respected.
\<close>

definition py_int :: "runtime \<Rightarrow> ustr \<Rightarrow> error + int" where
  "py_int rt s =
     (if s = [] \<or> \<not> list_all (\<lambda>c. decimal_value c \<noteq> None) s then Inl ValueError
      else if 0 < int_max_str_digits rt \<and> int_max_str_digits rt < length s then Inl ValueError
      else Inr (foldl (\<lambda>acc c. 10 * acc + int (the (decimal_value c))) 0 s))"

section \<open>The composite: \<open>FleetComponent\<close>, \<open>FleetGroup\<close>, \<open>Vehicle\<close>\<close>

text \<open>
  Objects live in a store and are referred to by address, because the program shares
  them: a group is held by the root's child list and by the dictionary
  \<open>energy_groups\<close> at once. A \<open>FleetGroup\<close> has the fields \<open>name\<close> and \<open>_children\<close>, a
  \<open>Vehicle\<close> the fields \<open>name\<close> and \<open>energy_source\<close>.
\<close>

type_synonym addr = nat

datatype component =
    FleetGroup (name: ustr) (children: "addr list")
  | Vehicle (name: ustr) (energy_source: ustr)

type_synonym store = "component list"

definition lookup :: "store \<Rightarrow> addr \<Rightarrow> component option" where
  "lookup h a = (if a < length h then Some (h ! a) else None)"

text \<open>Creating an object: it gets the next free address.\<close>

definition alloc :: "store \<Rightarrow> component \<Rightarrow> store \<times> addr" where
  "alloc h c = (h @ [c], length h)"

text \<open>
  \<open>component.add(child)\<close>. \<open>FleetGroup.add\<close> appends to \<open>_children\<close>; \<open>Vehicle\<close> inherits
  \<open>FleetComponent.add\<close>, which raises.
\<close>

definition add :: "store \<Rightarrow> addr \<Rightarrow> addr \<Rightarrow> error + store" where
  "add h self child =
     (case lookup h self of
        None \<Rightarrow> Inl InvalidReference
      | Some (FleetGroup n cs) \<Rightarrow> Inr (h[self := FleetGroup n (cs @ [child])])
      | Some (Vehicle n e) \<Rightarrow> Inl (NotImplementedError ''Cannot add child to a leaf component''))"

text \<open>
  \<open>x == y\<close> as \<open>list.remove\<close> evaluates it: identical objects are equal; two vehicles are
  equal when their fields are (the \<open>__eq__\<close> that \<open>@dataclass\<close> generates); a
  \<open>FleetGroup\<close> defines no \<open>__eq__\<close> and is equal to itself only.
\<close>

definition py_eq :: "store \<Rightarrow> addr \<Rightarrow> addr \<Rightarrow> bool" where
  "py_eq h x y =
     (x = y \<or>
      (case (lookup h x, lookup h y) of
         (Some (Vehicle n1 e1), Some (Vehicle n2 e2)) \<Rightarrow> n1 = n2 \<and> e1 = e2
       | _ \<Rightarrow> False))"

text \<open>\<open>list.remove(x)\<close>: drops the first item equal to \<open>x\<close>, \<open>ValueError\<close> when there is none.\<close>

fun list_remove :: "('a \<Rightarrow> bool) \<Rightarrow> 'a list \<Rightarrow> error + 'a list" where
  "list_remove eq [] = Inl ValueError"
| "list_remove eq (x # xs) =
     (if eq x then Inr xs
      else case list_remove eq xs of Inl e \<Rightarrow> Inl e | Inr ys \<Rightarrow> Inr (x # ys))"

text \<open>\<open>component.remove(child)\<close>.\<close>

definition remove :: "store \<Rightarrow> addr \<Rightarrow> addr \<Rightarrow> error + store" where
  "remove h self child =
     (case lookup h self of
        None \<Rightarrow> Inl InvalidReference
      | Some (FleetGroup n cs) \<Rightarrow>
          (case list_remove (\<lambda>x. py_eq h x child) cs of
             Inl e \<Rightarrow> Inl e
           | Inr cs' \<Rightarrow> Inr (h[self := FleetGroup n cs']))
      | Some (Vehicle n e) \<Rightarrow>
          Inl (NotImplementedError ''Cannot remove child from a leaf component''))"

text \<open>
  The loop of \<open>FleetGroup.display\<close>: \<open>for child in self._children:
  lines.append(child.display(indent + 2))\<close>, with \<open>disp\<close> the call on a child. An
  exception in a child ends the loop.
\<close>

fun append_displays :: "(addr \<Rightarrow> error + ustr) \<Rightarrow> addr list \<Rightarrow> ustr list \<Rightarrow> error + ustr list" where
  "append_displays disp [] lines = Inr lines"
| "append_displays disp (c # cs) lines =
     (case disp c of
        Inl e \<Rightarrow> Inl e
      | Inr s \<Rightarrow> append_displays disp cs (lines @ [s]))"

text \<open>
  \<open>component.display(indent)\<close>. The first argument is the call depth still available:
  the recursion follows the object graph, and where Python runs out of stack it raises
  \<open>RecursionError\<close>.
\<close>

fun display :: "nat \<Rightarrow> store \<Rightarrow> addr \<Rightarrow> int \<Rightarrow> error + ustr" where
  "display 0 h self indent = Inl RecursionError"
| "display (Suc depth) h self indent =
     (case lookup h self of
        None \<Rightarrow> Inl InvalidReference
      | Some (FleetGroup n cs) \<Rightarrow>
          (case append_displays (\<lambda>c. display depth h c (indent + 2)) cs
                  [spaces indent @ n @ [58]] of
             Inl e \<Rightarrow> Inl e
           | Inr lines \<Rightarrow> Inr (py_join [10] lines))
      | Some (Vehicle n e) \<Rightarrow> Inr (spaces indent @ n @ [32, 40] @ e @ [41]))"


section \<open>The registry: \<open>FleetConsoleApp\<close>\<close>

text \<open>
  The fields of \<open>FleetConsoleApp\<close>, with the store its objects live in. The dictionary
  \<open>energy_groups\<close> is a list of pairs in insertion order, read with \<open>map_of\<close>.
\<close>

record app =
  heap :: store
  root_group :: addr
  energy_groups :: "(ustr \<times> addr) list"

text \<open>\<open>d[k] = v\<close>: replaces the value of a key that is present, appends a new key.\<close>

fun dict_set :: "('k \<times> 'v) list \<Rightarrow> 'k \<Rightarrow> 'v \<Rightarrow> ('k \<times> 'v) list" where
  "dict_set [] k v = [(k, v)]"
| "dict_set ((k', v') # d) k v = (if k' = k then (k, v) # d else (k', v') # dict_set d k v)"

text \<open>\<open>FleetConsoleApp.__init__\<close>: the root group is named "Avtopark" (fleet), in Cyrillic.\<close>

definition init_app :: app where
  "init_app =
     (let (h, root) = alloc [] (FleetGroup [1040, 1074, 1090, 1086, 1087, 1072, 1088, 1082] [])
      in \<lparr>heap = h, root_group = root, energy_groups = []\<rparr>)"

text \<open>\<open>FleetConsoleApp._get_or_create_energy_group\<close> (lines 113 to 118).\<close>

definition get_or_create_energy_group :: "runtime \<Rightarrow> app \<Rightarrow> ustr \<Rightarrow> error + (app \<times> addr)" where
  "get_or_create_energy_group rt a es =
     (case (if map_of (energy_groups a) es = None
            then (let (h1, grp) = alloc (heap a) (FleetGroup (capitalize rt es) []);
                      d = dict_set (energy_groups a) es grp
                  in case add h1 (root_group a) grp of
                       Inl e \<Rightarrow> Inl e
                     | Inr h2 \<Rightarrow> Inr (a\<lparr>heap := h2, energy_groups := d\<rparr>))
            else Inr a) of
        Inl e \<Rightarrow> Inl e
      | Inr a' \<Rightarrow>
          (case map_of (energy_groups a') es of
             None \<Rightarrow> Inl KeyError
           | Some grp \<Rightarrow> Inr (a', grp)))"

text \<open>
  The registry's \<open>add_vehicle\<close>: lines 89 and 90 of \<open>_handle_add_vehicle\<close>, the part that
  follows the validation of the input.
\<close>

definition add_vehicle :: "runtime \<Rightarrow> app \<Rightarrow> ustr \<Rightarrow> ustr \<Rightarrow> error + app" where
  "add_vehicle rt a nm es =
     (case get_or_create_energy_group rt a es of
        Inl e \<Rightarrow> Inl e
      | Inr (a1, grp) \<Rightarrow>
          (let (h2, v) = alloc (heap a1) (Vehicle nm es)
           in case add h2 grp v of
                Inl e \<Rightarrow> Inl e
              | Inr h3 \<Rightarrow> Inr (a1\<lparr>heap := h3\<rparr>)))"

text \<open>The registry's \<open>render\<close>: \<open>self.root_group.display()\<close> of line 72.\<close>

definition render :: "runtime \<Rightarrow> app \<Rightarrow> error + ustr" where
  "render rt a = display (recursion_limit rt) (heap a) (root_group a) 0"

text \<open>A sequence of calls on the registry; an exception ends it.\<close>

datatype call = AddVehicle ustr ustr | Render

fun exec_calls :: "runtime \<Rightarrow> app \<Rightarrow> call list \<Rightarrow> error + app" where
  "exec_calls rt a [] = Inr a"
| "exec_calls rt a (AddVehicle nm es # cs) =
     (case add_vehicle rt a nm es of Inl e \<Rightarrow> Inl e | Inr a' \<Rightarrow> exec_calls rt a' cs)"
| "exec_calls rt a (Render # cs) =
     (case render rt a of Inl e \<Rightarrow> Inl e | Inr s \<Rightarrow> exec_calls rt a cs)"

text \<open>The arguments of the \<open>add_vehicle\<close> calls of a sequence, in order.\<close>

fun added :: "call list \<Rightarrow> (ustr \<times> ustr) list" where
  "added [] = []"
| "added (AddVehicle nm es # cs) = (nm, es) # added cs"
| "added (Render # cs) = added cs"

text \<open>
  The leaves below a node, as addresses, in display order; \<open>depth\<close> bounds the descent as
  it does for \<open>display\<close>.
\<close>

fun leaves :: "nat \<Rightarrow> store \<Rightarrow> addr \<Rightarrow> addr list" where
  "leaves 0 h a = []"
| "leaves (Suc depth) h a =
     (case lookup h a of
        None \<Rightarrow> []
      | Some (FleetGroup n cs) \<Rightarrow> concat (map (leaves depth h) cs)
      | Some (Vehicle n e) \<Rightarrow> [a])"

text \<open>The children of the group at an address (none for a vehicle).\<close>

definition kids :: "store \<Rightarrow> addr \<Rightarrow> addr list" where
  "kids h a = (case lookup h a of Some (FleetGroup n cs) \<Rightarrow> cs | _ \<Rightarrow> [])"

section \<open>The interaction loop\<close>

text \<open>
  The console: the lines still to be read from standard input (each without its
  newline, as \<open>input\<close> returns them) and what has been written so far, a \<open>print\<close> call or
  the prompt of an \<open>input\<close> call.
\<close>

datatype event = Print ustr | Prompt ustr

record console =
  stdin :: "ustr list"
  stdout :: "event list"

definition print :: "ustr \<Rightarrow> console \<Rightarrow> console" where
  "print s c = c\<lparr>stdout := stdout c @ [Print s]\<rparr>"

text \<open>\<open>input(prompt)\<close>: writes the prompt, reads a line; \<open>EOFError\<close> at the end of input.\<close>

definition input :: "ustr \<Rightarrow> console \<Rightarrow> error + (ustr \<times> console)" where
  "input prompt c =
     (case stdin c of
        [] \<Rightarrow> Inl EOFError
      | l # ls \<Rightarrow> Inr (l, c\<lparr>stdin := ls, stdout := stdout c @ [Prompt prompt]\<rparr>))"

text \<open>\<open>str(n)\<close> for a natural number: its decimal digits.\<close>

fun str :: "nat \<Rightarrow> ustr" where
  "str n = (if n < 10 then [48 + n] else str (n div 10) @ [48 + n mod 10])"

declare str.simps [simp del]

text \<open>
  The list \<open>sources\<close> of \<open>_ask_energy_source\<close>: the Russian words for electricity,
  gasoline (petrol), gas and hybrid.
\<close>

definition sources :: "ustr list" where
  "sources =
     [[1101, 1083, 1077, 1082, 1090, 1088, 1080, 1095, 1077, 1089, 1090, 1074, 1086],
      [1073, 1077, 1085, 1079, 1080, 1085],
      [1075, 1072, 1079],
      [1075, 1080, 1073, 1088, 1080, 1076]]"

text \<open>The messages of the program, in source order, with their meaning.\<close>

definition msg_welcome :: ustr where \<comment> \<open>Welcome to the fleet management system!\<close>
  "msg_welcome =
     [1044, 1086, 1073, 1088, 1086, 32, 1087, 1086, 1078, 1072, 1083, 1086, 1074, 1072, 1090,
      1100, 32, 1074, 32, 1089, 1080, 1089, 1090, 1077, 1084, 1091, 32, 1091, 1087, 1088,
      1072, 1074, 1083, 1077, 1085, 1080, 1103, 32, 1072, 1074, 1090, 1086, 1087, 1072,
      1088, 1082, 1086, 1084, 33]"

definition msg_choose_action :: ustr where \<comment> \<open>newline, then: Choose an action:\<close>
  "msg_choose_action =
     [10, 1042, 1099, 1073, 1077, 1088, 1080, 1090, 1077, 32, 1076, 1077, 1081, 1089, 1090,
      1074, 1080, 1077, 58]"

definition msg_menu_add :: ustr where \<comment> \<open>1. Add a bus\<close>
  "msg_menu_add =
     [49, 46, 32, 1044, 1086, 1073, 1072, 1074, 1080, 1090, 1100, 32, 1072, 1074, 1090, 1086,
      1073, 1091, 1089]"

definition msg_menu_show :: ustr where \<comment> \<open>2. Show the structure of the fleet\<close>
  "msg_menu_show =
     [50, 46, 32, 1055, 1086, 1082, 1072, 1079, 1072, 1090, 1100, 32, 1089, 1090, 1088, 1091,
      1082, 1090, 1091, 1088, 1091, 32, 1072, 1074, 1090, 1086, 1087, 1072, 1088, 1082, 1072]"

definition msg_menu_exit :: ustr where \<comment> \<open>3. Exit\<close>
  "msg_menu_exit = [51, 46, 32, 1042, 1099, 1081, 1090, 1080]"

definition prompt_choice :: ustr where \<comment> \<open>the prompt "> "\<close>
  "prompt_choice = [62, 32]"

definition msg_goodbye :: ustr where \<comment> \<open>Goodbye!\<close>
  "msg_goodbye = [1044, 1086, 32, 1089, 1074, 1080, 1076, 1072, 1085, 1080, 1103, 33]"

definition msg_unknown_command :: ustr where \<comment> \<open>Unknown command. Try again.\<close>
  "msg_unknown_command =
     [1053, 1077, 1080, 1079, 1074, 1077, 1089, 1090, 1085, 1072, 1103, 32, 1082, 1086, 1084,
      1072, 1085, 1076, 1072, 46, 32, 1055, 1086, 1087, 1088, 1086, 1073, 1091, 1081, 1090,
      1077, 32, 1089, 1085, 1086, 1074, 1072, 46]"

definition prompt_name :: ustr where \<comment> \<open>Enter the name of the bus:\<close>
  "prompt_name =
     [1042, 1074, 1077, 1076, 1080, 1090, 1077, 32, 1085, 1072, 1079, 1074, 1072, 1085, 1080,
      1077, 32, 1072, 1074, 1090, 1086, 1073, 1091, 1089, 1072, 58, 32]"

definition msg_empty_name :: ustr where \<comment> \<open>The name of the bus cannot be empty.\<close>
  "msg_empty_name =
     [1053, 1072, 1079, 1074, 1072, 1085, 1080, 1077, 32, 1072, 1074, 1090, 1086, 1073, 1091,
      1089, 1072, 32, 1085, 1077, 32, 1084, 1086, 1078, 1077, 1090, 32, 1073, 1099, 1090,
      1100, 32, 1087, 1091, 1089, 1090, 1099, 1084, 46]"

definition msg_added :: "ustr \<Rightarrow> ustr \<Rightarrow> ustr" where
  \<comment> \<open>Bus 'name' with energy source 'energy_source' has been added to the fleet.\<close>
  "msg_added nm es =
     [1040, 1074, 1090, 1086, 1073, 1091, 1089, 32, 39] @ nm
     @ [39, 32, 1089, 32, 1080, 1089, 1090, 1086, 1095, 1085, 1080, 1082, 1086, 1084, 32,
        1101, 1085, 1077, 1088, 1075, 1080, 1080, 32, 39] @ es
     @ [39, 32, 1076, 1086, 1073, 1072, 1074, 1083, 1077, 1085, 32, 1074, 32, 1072, 1074,
        1090, 1086, 1087, 1072, 1088, 1082, 46]"

definition msg_choose_source :: ustr where \<comment> \<open>Choose the energy source:\<close>
  "msg_choose_source =
     [1042, 1099, 1073, 1077, 1088, 1080, 1090, 1077, 32, 1080, 1089, 1090, 1086, 1095, 1085,
      1080, 1082, 32, 1101, 1085, 1077, 1088, 1075, 1080, 1080, 58]"

definition msg_need_number :: ustr where \<comment> \<open>You must enter the number of an option.\<close>
  "msg_need_number =
     [1053, 1091, 1078, 1085, 1086, 32, 1074, 1074, 1077, 1089, 1090, 1080, 32, 1085, 1086,
      1084, 1077, 1088, 32, 1074, 1072, 1088, 1080, 1072, 1085, 1090, 1072, 46]"

definition msg_no_such_source :: ustr where \<comment> \<open>There is no such energy source.\<close>
  "msg_no_such_source =
     [1053, 1077, 1090, 32, 1090, 1072, 1082, 1086, 1075, 1086, 32, 1080, 1089, 1090, 1086,
      1095, 1085, 1080, 1082, 1072, 32, 1101, 1085, 1077, 1088, 1075, 1080, 1080, 46]"

text \<open>
  The loop \<open>for idx, source in enumerate(sources, start=1): print(f"{idx}. {source}")\<close>.
\<close>

fun print_sources :: "nat \<Rightarrow> ustr list \<Rightarrow> console \<Rightarrow> console" where
  "print_sources idx [] c = c"
| "print_sources idx (source # rest) c =
     print_sources (idx + 1) rest (print (str idx @ [46, 32] @ source) c)"

text \<open>
  \<open>FleetConsoleApp._ask_energy_source\<close> (lines 93 to 111). An index that passes the range
  check of line 108 is a valid position of \<open>sources\<close>.
\<close>

definition ask_energy_source :: "runtime \<Rightarrow> console \<Rightarrow> error + (ustr option \<times> console)" where
  "ask_energy_source rt c =
     (case input prompt_choice (print_sources 1 sources (print msg_choose_source c)) of
        Inl e \<Rightarrow> Inl e
      | Inr (line, c1) \<Rightarrow>
          (let choice = strip line in
           if \<not> isdigit choice then Inr (None, print msg_need_number c1)
           else case py_int rt choice of
                  Inl e \<Rightarrow> Inl e
                | Inr v \<Rightarrow>
                    (let index = v - 1 in
                     if index < 0 \<or> index \<ge> int (length sources)
                     then Inr (None, print msg_no_such_source c1)
                     else Inr (Some (sources ! nat index), c1))))"

text \<open>\<open>FleetConsoleApp._handle_add_vehicle\<close> (lines 79 to 91).\<close>

definition handle_add_vehicle :: "runtime \<Rightarrow> app \<Rightarrow> console \<Rightarrow> error + (app \<times> console)" where
  "handle_add_vehicle rt a c =
     (case input prompt_name c of
        Inl e \<Rightarrow> Inl e
      | Inr (line, c1) \<Rightarrow>
          (let nm = strip line in
           if nm = [] then Inr (a, print msg_empty_name c1)
           else case ask_energy_source rt c1 of
                  Inl e \<Rightarrow> Inl e
                | Inr (None, c2) \<Rightarrow> Inr (a, c2)
                | Inr (Some es, c2) \<Rightarrow>
                    (case add_vehicle rt a nm es of
                       Inl e \<Rightarrow> Inl e
                     | Inr a' \<Rightarrow> Inr (a', print (msg_added nm es) c2))))"

text \<open>
  The \<open>while True\<close> loop of \<open>FleetConsoleApp.run\<close>. Every iteration reads at least one
  line, so on a finite input it ends: with the command 3, or with \<open>EOFError\<close> when the
  input is used up (or with another exception on the way).
\<close>

function run_loop :: "runtime \<Rightarrow> app \<Rightarrow> console \<Rightarrow> error + (app \<times> console)" where
  "run_loop rt a c =
     (case input prompt_choice
             (print msg_menu_exit (print msg_menu_show (print msg_menu_add
                (print msg_choose_action c)))) of
        Inl e \<Rightarrow> Inl e
      | Inr (line, c1) \<Rightarrow>
          (let choice = strip line in
           if choice = [49] then
             (case handle_add_vehicle rt a c1 of
                Inl e \<Rightarrow> Inl e
              | Inr (a', c2) \<Rightarrow> run_loop rt a' c2)
           else if choice = [50] then
             (case render rt a of
                Inl e \<Rightarrow> Inl e
              | Inr s \<Rightarrow> run_loop rt a (print (10 # s) c1))
           else if choice = [51] then Inr (a, print msg_goodbye c1)
           else run_loop rt a (print msg_unknown_command c1)))"
  by pat_completeness auto
termination
proof (relation "measure (\<lambda>(rt, a, c). length (stdin c))")
  show "wf (measure (\<lambda>(rt, a, c). length (stdin c)))" by simp
next
  fix rt :: runtime and a a' :: app and c c1 c2 :: console and line choice x2 and xa :: "app \<times> console"
  assume i: "input prompt_choice
      (print msg_menu_exit (print msg_menu_show (print msg_menu_add (print msg_choose_action c))))
      = Inr x2" "(line, c1) = x2"
    and h: "handle_add_vehicle rt a c1 = Inr xa" "(a', c2) = xa"
  have prs: "\<And>i ss k. stdin (print_sources i ss k) = stdin k"
  proof -
    fix i ss k show "stdin (print_sources i ss k) = stdin k"
      by (induction ss arbitrary: i k) (simp_all add: print_def)
  qed
  have ask: "\<And>k r k'. ask_energy_source rt k = Inr (r, k') \<Longrightarrow> length (stdin k') \<le> length (stdin k)"
    by (auto simp: ask_energy_source_def input_def print_def prs Let_def
        split: list.splits sum.splits if_splits)
  have "length (stdin c2) \<le> length (stdin c1)"
    using h ask
    by (auto simp: handle_add_vehicle_def input_def print_def Let_def
        split: list.splits sum.splits if_splits option.splits dest!: ask)
  moreover have "length (stdin c1) < length (stdin c)"
    using i by (auto simp: input_def print_def split: list.splits)
  ultimately show "((rt, a', c2), (rt, a, c)) \<in> measure (\<lambda>(rt, a, c). length (stdin c))"
    by simp
next
  fix rt :: runtime and a :: app and c c1 :: console and line choice x2 s
  assume "input prompt_choice
      (print msg_menu_exit (print msg_menu_show (print msg_menu_add (print msg_choose_action c))))
      = Inr x2" "(line, c1) = x2"
  then show "((rt, a, print (10 # s) c1), (rt, a, c)) \<in> measure (\<lambda>(rt, a, c). length (stdin c))"
    by (auto simp: input_def print_def split: list.splits)
next
  fix rt :: runtime and a :: app and c c1 :: console and line choice x2
  assume "input prompt_choice
      (print msg_menu_exit (print msg_menu_show (print msg_menu_add (print msg_choose_action c))))
      = Inr x2" "(line, c1) = x2"
  then show "((rt, a, print msg_unknown_command c1), (rt, a, c))
      \<in> measure (\<lambda>(rt, a, c). length (stdin c))"
    by (auto simp: input_def print_def split: list.splits)
qed

declare run_loop.simps [simp del]

text \<open>\<open>FleetConsoleApp.run\<close> and \<open>main\<close>.\<close>

definition run :: "runtime \<Rightarrow> app \<Rightarrow> console \<Rightarrow> error + (app \<times> console)" where
  "run rt a c = run_loop rt a (print msg_welcome c)"

definition main :: "runtime \<Rightarrow> ustr list \<Rightarrow> error + (app \<times> console)" where
  "main rt lines = run rt init_app \<lparr>stdin = lines, stdout = []\<rparr>"

section \<open>Auxiliary definitions\<close>

text \<open>
  The shape of the registry after the \<open>add_vehicle\<close> calls \<open>calls\<close>: the root's children
  are the registered groups, in the order of the dictionary; keys and groups are not
  repeated; there is a key for every energy source used so far; the group of a source
  holds the vehicles of the calls with that source, in call order; no vehicle is held
  twice.
\<close>

definition registry_inv :: "app \<Rightarrow> (ustr \<times> ustr) list \<Rightarrow> bool" where
  "registry_inv a calls \<longleftrightarrow>
     (\<exists>rn. lookup (heap a) (root_group a) = Some (FleetGroup rn (map snd (energy_groups a))))
   \<and> distinct (map fst (energy_groups a))
   \<and> distinct (map snd (energy_groups a))
   \<and> root_group a \<notin> set (map snd (energy_groups a))
   \<and> set (map fst (energy_groups a)) = snd ` set calls
   \<and> (\<forall>(t, g)\<in>set (energy_groups a).
         (\<exists>gn cs. lookup (heap a) g = Some (FleetGroup gn cs))
       \<and> map (lookup (heap a)) (kids (heap a) g)
           = map (\<lambda>c. Some (Vehicle (fst c) (snd c))) (filter (\<lambda>c. snd c = t) calls))
   \<and> distinct (concat (map (kids (heap a)) (map snd (energy_groups a))))
   \<and> length (concat (map (kids (heap a)) (map snd (energy_groups a)))) = length calls"


text \<open>
  An interpreter to evaluate examples with. Its \<open>str.capitalize\<close> covers the letters of
  Basic Latin and of Cyrillic, and leaves every other character as it is (Python has
  case tables for the other scripts as well); the limits are CPython's defaults.
\<close>

definition to_upper_basic :: "nat \<Rightarrow> nat" where
  "to_upper_basic c =
     (if (97 \<le> c \<and> c \<le> 122) \<or> (1072 \<le> c \<and> c \<le> 1103) then c - 32
      else if 1104 \<le> c \<and> c \<le> 1119 then c - 80 else c)"

definition to_lower_basic :: "nat \<Rightarrow> nat" where
  "to_lower_basic c =
     (if (65 \<le> c \<and> c \<le> 90) \<or> (1040 \<le> c \<and> c \<le> 1071) then c + 32
      else if 1024 \<le> c \<and> c \<le> 1039 then c + 80 else c)"

definition capitalize_basic :: "ustr \<Rightarrow> ustr" where
  "capitalize_basic s = (case s of [] \<Rightarrow> [] | c # cs \<Rightarrow> to_upper_basic c # map to_lower_basic cs)"

definition cpython :: runtime where
  "cpython = \<lparr>capitalize = capitalize_basic, int_max_str_digits = 4300, recursion_limit = 1000\<rparr>"

section \<open>Evaluating the model on concrete inputs\<close>

lemma str_digit: "n < 10 \<Longrightarrow> str n = [48 + n]"
  by (simp add: str.simps)

lemma display_numeral: "display (numeral k) h a i = display (Suc (pred_numeral k)) h a i"
  by (simp add: numeral_eq_Suc)

lemma menu_events:
  "map (\<lambda>(k, s). Print (str k @ [46, 32] @ s)) (zip [1..<5] sources)
   = [Print ([49, 46, 32] @ sources ! 0), Print ([50, 46, 32] @ sources ! 1),
      Print ([51, 46, 32] @ sources ! 2), Print ([52, 46, 32] @ sources ! 3)]"
proof -
  have "[1..<5] = [1, 2, 3, Suc 3]" by (simp add: upt_rec)
  then show ?thesis by (simp add: sources_def str_digit)
qed

lemmas eval_defs =
  strip_def py_isspace_def isdigit_def char_isdigit_def decimal_value_def decimal_zeros_def
  digit_only_ranges_def py_int_def cpython_def capitalize_basic_def to_upper_basic_def
  to_lower_basic_def sources_def input_def print_def str_digit
  add_vehicle_def get_or_create_energy_group_def init_app_def alloc_def add_def lookup_def
  handle_add_vehicle_def ask_energy_source_def render_def display_numeral spaces_def
  main_def run_def Let_def



section \<open>Properties of the composite\<close>

lemma py_join_cons: "py_join sep (x # xs) = x @ concat (map (\<lambda>s. sep @ s) xs)"
  by (induction xs arbitrary: x) simp_all

lemma append_displays_ok:
  "map disp cs = map Inr ss \<Longrightarrow> append_displays disp cs lines = Inr (lines @ ss)"
proof (induction cs arbitrary: ss lines)
  case Nil then show ?case by simp
next
  case (Cons c cs)
  then obtain s ss' where ss: "ss = s # ss'" "disp c = Inr s" "map disp cs = map Inr ss'"
    by (cases ss) auto
  with Cons.IH [of ss' "lines @ [s]"] show ?case by simp
qed

lemma append_displays_result:
  "append_displays disp cs lines = Inr ls \<Longrightarrow> \<exists>ss. map disp cs = map Inr ss \<and> ls = lines @ ss"
proof (induction cs arbitrary: lines)
  case Nil then show ?case by simp
next
  case (Cons c cs)
  then obtain s where s: "disp c = Inr s" "append_displays disp cs (lines @ [s]) = Inr ls"
    by (auto split: sum.splits)
  from Cons.IH [OF s(2)] obtain ss where "map disp cs = map Inr ss" "ls = (lines @ [s]) @ ss" by blast
  with s(1) have "map disp (c # cs) = map Inr (s # ss) \<and> ls = lines @ (s # ss)" by simp
  then show ?case by blast
qed

lemma display_group:
  assumes "lookup h self = Some (FleetGroup n cs)"
    and "map (\<lambda>c. display depth h c (indent + 2)) cs = map Inr ss"
  shows "display (Suc depth) h self indent
         = Inr (spaces indent @ n @ [58] @ concat (map (\<lambda>s. 10 # s) ss))"
  using assms by (simp add: append_displays_ok py_join_cons)

lemma display_nonempty_last:
  "display depth h self indent = Inr s \<Longrightarrow> s \<noteq> [] \<and> (last s = 58 \<or> last s = 41)"
proof (induction depth arbitrary: self indent s)
  case 0 then show ?case by simp
next
  case (Suc depth)
  show ?case
  proof (cases "lookup h self")
    case None with Suc.prems show ?thesis by simp
  next
    case (Some comp)
    show ?thesis
    proof (cases comp)
      case (Vehicle n e)
      with Some Suc.prems show ?thesis by auto
    next
      case (FleetGroup n cs)
      with Some Suc.prems obtain ls where
        ls: "append_displays (\<lambda>c. display depth h c (indent + 2)) cs [spaces indent @ n @ [58]] = Inr ls"
        and s: "s = py_join [10] ls"
        by (auto split: sum.splits)
      from append_displays_result [OF ls] obtain ss where
        ss: "map (\<lambda>c. display depth h c (indent + 2)) cs = map Inr ss"
        and ls': "ls = [spaces indent @ n @ [58]] @ ss" by blast
      have all: "\<forall>t\<in>set ss. t \<noteq> [] \<and> (last t = 58 \<or> last t = 41)"
      proof
        fix t assume "t \<in> set ss"
        then have "Inr t \<in> set (map (\<lambda>c. display depth h c (indent + 2)) cs)"
          unfolding ss by simp
        then obtain c where "display depth h c (indent + 2) = Inr t" by auto
        then show "t \<noteq> [] \<and> (last t = 58 \<or> last t = 41)" by (rule Suc.IH)
      qed
      have s': "s = spaces indent @ n @ [58] @ concat (map (\<lambda>s. 10 # s) ss)"
        using s ls' by (simp add: py_join_cons)
      show ?thesis
      proof (cases ss rule: rev_cases)
        case Nil with s' show ?thesis by simp
      next
        case (snoc ss' t)
        with all have "t \<noteq> [] \<and> (last t = 58 \<or> last t = 41)" by simp
        with s' snoc show ?thesis by simp
      qed
    qed
  qed
qed

lemma list_remove_error:
  "list_remove eq xs = Inl e \<longleftrightarrow> e = ValueError \<and> (\<forall>x\<in>set xs. \<not> eq x)"
  by (induction xs) (auto split: sum.splits)

lemma list_remove_first:
  "\<exists>x\<in>set xs. eq x \<Longrightarrow>
   \<exists>i<length xs. eq (xs ! i) \<and> (\<forall>j<i. \<not> eq (xs ! j))
       \<and> list_remove eq xs = Inr (take i xs @ drop (Suc i) xs)"
proof (induction xs)
  case Nil then show ?case by simp
next
  case (Cons x xs)
  show ?case
  proof (cases "eq x")
    case True
    then have "0 < length (x # xs) \<and> eq ((x # xs) ! 0) \<and> (\<forall>j<0. \<not> eq ((x # xs) ! j))
        \<and> list_remove eq (x # xs) = Inr (take 0 (x # xs) @ drop (Suc 0) (x # xs))" by simp
    then show ?thesis by blast
  next
    case False
    with Cons.prems have "\<exists>x\<in>set xs. eq x" by simp
    from Cons.IH [OF this] obtain i where i: "i < length xs" "eq (xs ! i)" "\<forall>j<i. \<not> eq (xs ! j)"
      "list_remove eq xs = Inr (take i xs @ drop (Suc i) xs)" by blast
    have "\<forall>j<Suc i. \<not> eq ((x # xs) ! j)"
    proof (intro allI impI)
      fix j assume "j < Suc i"
      then show "\<not> eq ((x # xs) ! j)" using False i(3) by (cases j) simp_all
    qed
    with i False have "Suc i < length (x # xs) \<and> eq ((x # xs) ! Suc i) \<and> (\<forall>j<Suc i. \<not> eq ((x # xs) ! j))
        \<and> list_remove eq (x # xs) = Inr (take (Suc i) (x # xs) @ drop (Suc (Suc i)) (x # xs))" by simp
    then show ?thesis by blast
  qed
qed


text \<open>
  Claim C2. For a non-negative \<open>indent\<close>, the display of a vehicle is \<open>indent\<close> spaces, the
  name, a space and the energy source in parentheses, with nothing after the closing
  parenthesis; the display of a group is \<open>indent\<close> spaces, the name and a colon, followed
  for each child, in the order of \<open>_children\<close>, by a newline and the child's display at
  \<open>indent + 2\<close> (\<open>ss\<close> are the displays the children return).
\<close>

theorem display_layout:
  assumes "0 \<le> indent"
  shows "(lookup h self = Some (Vehicle n e) \<longrightarrow>
            display (Suc depth) h self indent
              = Inr (replicate (nat indent) 32 @ n @ [32, 40] @ e @ [41]))
       \<and> (lookup h self = Some (FleetGroup n cs) \<longrightarrow>
            map (\<lambda>c. display depth h c (indent + 2)) cs = map Inr ss \<longrightarrow>
            display (Suc depth) h self indent
              = Inr (replicate (nat indent) 32 @ n @ [58] @ concat (map (\<lambda>s. 10 # s) ss)))"
proof (intro conjI impI)
  assume "lookup h self = Some (Vehicle n e)"
  then show "display (Suc depth) h self indent
      = Inr (replicate (nat indent) 32 @ n @ [32, 40] @ e @ [41])"
    by (simp add: spaces_def)
next
  assume "lookup h self = Some (FleetGroup n cs)"
    and "map (\<lambda>c. display depth h c (indent + 2)) cs = map Inr ss"
  then show "display (Suc depth) h self indent
      = Inr (replicate (nat indent) 32 @ n @ [58] @ concat (map (\<lambda>s. 10 # s) ss))"
    using display_group [of h self n cs depth indent ss] by (simp add: spaces_def)
qed

theorem display_layout_witness:
  "display (Suc (Suc 0)) [FleetGroup [65] [1, 2], Vehicle [66] [67], Vehicle [68, 69] [70]] 1 2
     = Inr [32, 32, 66, 32, 40, 67, 41]
   \<and> display (Suc (Suc 0)) [FleetGroup [65] [1, 2], Vehicle [66] [67], Vehicle [68, 69] [70]] 0 2
     = Inr [32, 32, 65, 58, 10, 32, 32, 32, 32, 66, 32, 40, 67, 41,
            10, 32, 32, 32, 32, 68, 69, 32, 40, 70, 41]"
proof -
  let ?h = "[FleetGroup [65] [1, 2], Vehicle [66] [67], Vehicle [68, 69] [70]]"
  have i: "(0::int) \<le> 2" by simp
  have l: "lookup ?h 1 = Some (Vehicle [66] [67])" by (simp add: lookup_def)
  have g: "lookup ?h 0 = Some (FleetGroup [65] [1, 2])" by (simp add: lookup_def)
  have c: "map (\<lambda>c. display (Suc 0) ?h c (2 + 2)) [1, 2]
      = map Inr [[32, 32, 32, 32, 66, 32, 40, 67, 41], [32, 32, 32, 32, 68, 69, 32, 40, 70, 41]]"
    by (simp add: lookup_def spaces_def eval_nat_numeral)
  from display_layout [OF i, where h = ?h and self = 1 and n = "[66]" and e = "[67]"
      and depth = "Suc 0"] l
  have a: "display (Suc (Suc 0)) ?h 1 2 = Inr [32, 32, 66, 32, 40, 67, 41]"
    by (simp add: eval_nat_numeral)
  from display_layout [OF i, where h = ?h and self = 0 and n = "[65]" and cs = "[1, 2]"
      and depth = "Suc 0"
      and ss = "[[32, 32, 32, 32, 66, 32, 40, 67, 41], [32, 32, 32, 32, 68, 69, 32, 40, 70, 41]]"] g c
  have b: "display (Suc (Suc 0)) ?h 0 2
     = Inr [32, 32, 65, 58, 10, 32, 32, 32, 32, 66, 32, 40, 67, 41,
            10, 32, 32, 32, 32, 68, 69, 32, 40, 70, 41]"
    by (simp add: eval_nat_numeral)
  from a b show ?thesis by simp
qed

text \<open>
  Claim C10. Whatever a group's display returns is not empty and does not end with a
  newline; a group without children, such as the root of a new registry, displays as
  the single line of \<open>indent\<close> spaces, its name and a colon.
\<close>

theorem display_no_trailing_newline:
  assumes "lookup h self = Some (FleetGroup n cs)" and "0 \<le> indent"
  shows "(\<forall>s. display depth h self indent = Inr s \<longrightarrow> s \<noteq> [] \<and> last s \<noteq> 10)
       \<and> (cs = [] \<longrightarrow> display (Suc depth) h self indent = Inr (replicate (nat indent) 32 @ n @ [58]))"
proof (intro conjI allI impI)
  fix s assume "display depth h self indent = Inr s"
  from display_nonempty_last [OF this] show "s \<noteq> []" and "last s \<noteq> 10" by auto
next
  assume "cs = []"
  with assms(1) show "display (Suc depth) h self indent = Inr (replicate (nat indent) 32 @ n @ [58])"
    by (simp add: spaces_def)
qed

text \<open>
  Claim C6. \<open>add\<close> and \<open>remove\<close> on a vehicle raise \<open>NotImplementedError\<close> (the spec's
  UnsupportedOperation) for every vehicle and every argument; the store is not
  returned, so the call is no silent no-op.
\<close>

theorem leaf_add_remove_raise:
  assumes "lookup h self = Some (Vehicle n e)"
  shows "add h self child = Inl (NotImplementedError ''Cannot add child to a leaf component'')
       \<and> remove h self child = Inl (NotImplementedError ''Cannot remove child from a leaf component'')"
  using assms by (simp add: add_def remove_def)

theorem leaf_add_remove_raise_witness:
  "add [FleetGroup [65] [1], Vehicle [66] [67]] 1 0
     = Inl (NotImplementedError ''Cannot add child to a leaf component'')
   \<and> remove [FleetGroup [65] [1], Vehicle [66] [67]] 1 0
     = Inl (NotImplementedError ''Cannot remove child from a leaf component'')"
proof -
  have "lookup [FleetGroup [65] [1], Vehicle [66] [67]] 1 = Some (Vehicle [66] [67])"
    by (simp add: lookup_def)
  from leaf_add_remove_raise [OF this, of 0] show ?thesis .
qed


theorem display_no_trailing_newline_witness:
  "display (Suc 0) [FleetGroup [1040, 1074, 1090, 1086, 1087, 1072, 1088, 1082] []] 0 0
     = Inr [1040, 1074, 1090, 1086, 1087, 1072, 1088, 1082, 58]
   \<and> last [65, 58, 10, 32, 32, 66, 32, 40, 67, 41] \<noteq> (10::nat)"
proof -
  let ?h0 = "[FleetGroup [1040, 1074, 1090, 1086, 1087, 1072, 1088, 1082] []]"
  let ?h1 = "[FleetGroup [65] [1], Vehicle [66] [67]]"
  have i: "(0::int) \<le> 0" by simp
  have g0: "lookup ?h0 0 = Some (FleetGroup [1040, 1074, 1090, 1086, 1087, 1072, 1088, 1082] [])"
    by (simp add: lookup_def)
  have g1: "lookup ?h1 0 = Some (FleetGroup [65] [1])" by (simp add: lookup_def)
  have d1: "display (Suc (Suc 0)) ?h1 0 0 = Inr [65, 58, 10, 32, 32, 66, 32, 40, 67, 41]"
    by (simp add: lookup_def spaces_def eval_nat_numeral)
  from display_no_trailing_newline [OF g0 i, of 0]
  have a: "display (Suc 0) ?h0 0 0 = Inr [1040, 1074, 1090, 1086, 1087, 1072, 1088, 1082, 58]"
    by simp
  from display_no_trailing_newline [OF g1 i, of "Suc (Suc 0)"] d1
  have b: "last [65, 58, 10, 32, 32, 66, 32, 40, 67, 41] \<noteq> (10::nat)" by blast
  from a b show ?thesis by simp
qed

lemma lookup_update_same:
  "a < length h \<Longrightarrow> lookup (h[a := c]) a = Some c"
  by (simp add: lookup_def)

lemma filter_remove_nth:
  assumes "i < length xs" and "P (xs ! i)"
  shows "length (filter P (take i xs @ drop (Suc i) xs)) + 1 = length (filter P xs)"
proof -
  have "xs = take i xs @ xs ! i # drop (Suc i) xs"
    using assms(1) by (rule id_take_nth_drop)
  then have "filter P xs = filter P (take i xs) @ xs ! i # filter P (drop (Suc i) xs)"
    using assms(2) by (metis filter.simps(2) filter_append)
  then show ?thesis by simp
qed

text \<open>
  Claim C7. \<open>remove\<close> on a group raises \<open>ValueError\<close> (the spec's NotFound) exactly when no
  child equals the argument. Otherwise it drops the first child that equals it and
  nothing else: the group has one child less, one occurrence less of the argument, and
  its display is the header followed by the displays of the children that remain.
\<close>

theorem group_remove:
  assumes "lookup h self = Some (FleetGroup n cs)"
  shows "(remove h self child = Inl ValueError \<longleftrightarrow> (\<forall>x\<in>set cs. \<not> py_eq h x child))
       \<and> ((\<exists>x\<in>set cs. py_eq h x child) \<longrightarrow>
            (\<exists>i<length cs. py_eq h (cs ! i) child \<and> (\<forall>j<i. \<not> py_eq h (cs ! j) child)
               \<and> (let cs' = take i cs @ drop (Suc i) cs; h' = h[self := FleetGroup n cs'] in
                     remove h self child = Inr h'
                   \<and> lookup h' self = Some (FleetGroup n cs')
                   \<and> length cs' + 1 = length cs
                   \<and> length (filter (\<lambda>x. py_eq h x child) cs') + 1
                       = length (filter (\<lambda>x. py_eq h x child) cs)
                   \<and> (\<forall>depth indent ss.
                         0 \<le> indent \<longrightarrow>
                         map (\<lambda>c. display depth h' c (indent + 2)) cs' = map Inr ss \<longrightarrow>
                         display (Suc depth) h' self indent
                           = Inr (replicate (nat indent) 32 @ n @ [58]
                                  @ concat (map (\<lambda>s. 10 # s) ss))))))"
proof (intro conjI impI)
  show "remove h self child = Inl ValueError \<longleftrightarrow> (\<forall>x\<in>set cs. \<not> py_eq h x child)"
    using assms list_remove_error [of "\<lambda>x. py_eq h x child" cs ValueError]
    by (auto simp: remove_def split: sum.splits)
next
  assume "\<exists>x\<in>set cs. py_eq h x child"
  from list_remove_first [OF this] obtain i where i: "i < length cs" "py_eq h (cs ! i) child"
    "\<forall>j<i. \<not> py_eq h (cs ! j) child"
    "list_remove (\<lambda>x. py_eq h x child) cs = Inr (take i cs @ drop (Suc i) cs)" by blast
  define cs' where "cs' = take i cs @ drop (Suc i) cs"
  define h' where "h' = h[self := FleetGroup n cs']"
  from assms have self: "self < length h" by (simp add: lookup_def split: if_splits)
  have r: "remove h self child = Inr h'"
    using assms i(4) by (simp add: remove_def h'_def cs'_def)
  have l: "lookup h' self = Some (FleetGroup n cs')"
    unfolding h'_def using self by (rule lookup_update_same)
  have len: "length cs' + 1 = length cs"
    using i(1) by (simp add: cs'_def)
  have cnt: "length (filter (\<lambda>x. py_eq h x child) cs') + 1 = length (filter (\<lambda>x. py_eq h x child) cs)"
    unfolding cs'_def using i(1,2) by (rule filter_remove_nth)
  have disp: "\<forall>depth indent ss. 0 \<le> indent \<longrightarrow>
      map (\<lambda>c. display depth h' c (indent + 2)) cs' = map Inr ss \<longrightarrow>
      display (Suc depth) h' self indent
        = Inr (replicate (nat indent) 32 @ n @ [58] @ concat (map (\<lambda>s. 10 # s) ss))"
    using display_group [OF l] by (simp add: spaces_def)
  from i(1,2,3) r l len cnt disp
  show "\<exists>i<length cs. py_eq h (cs ! i) child \<and> (\<forall>j<i. \<not> py_eq h (cs ! j) child)
      \<and> (let cs' = take i cs @ drop (Suc i) cs; h' = h[self := FleetGroup n cs'] in
            remove h self child = Inr h'
          \<and> lookup h' self = Some (FleetGroup n cs')
          \<and> length cs' + 1 = length cs
          \<and> length (filter (\<lambda>x. py_eq h x child) cs') + 1
              = length (filter (\<lambda>x. py_eq h x child) cs)
          \<and> (\<forall>depth indent ss.
                0 \<le> indent \<longrightarrow>
                map (\<lambda>c. display depth h' c (indent + 2)) cs' = map Inr ss \<longrightarrow>
                display (Suc depth) h' self indent
                  = Inr (replicate (nat indent) 32 @ n @ [58]
                         @ concat (map (\<lambda>s. 10 # s) ss))))"
    unfolding cs'_def h'_def Let_def by blast
qed

theorem group_remove_witness:
  "remove [FleetGroup [65] [1, 2, 1], Vehicle [66] [67], Vehicle [68] [67], Vehicle [66] [67]] 0 0
     = Inl ValueError
   \<and> remove [FleetGroup [65] [1, 2, 1], Vehicle [66] [67], Vehicle [68] [67], Vehicle [66] [67]] 0 3
     = Inr [FleetGroup [65] [2, 1], Vehicle [66] [67], Vehicle [68] [67], Vehicle [66] [67]]
   \<and> display (Suc (Suc 0))
        [FleetGroup [65] [2, 1], Vehicle [66] [67], Vehicle [68] [67], Vehicle [66] [67]] 0 0
     = Inr [65, 58, 10, 32, 32, 68, 32, 40, 67, 41, 10, 32, 32, 66, 32, 40, 67, 41]"
proof -
  let ?h = "[FleetGroup [65] [1, 2, 1], Vehicle [66] [67], Vehicle [68] [67], Vehicle [66] [67]]"
  have g: "lookup ?h 0 = Some (FleetGroup [65] [1, 2, 1])" by (simp add: lookup_def)
  have "\<forall>x\<in>set [1, 2, 1]. \<not> py_eq ?h x 0" by (simp add: py_eq_def lookup_def)
  with group_remove [OF g, of 0] have a: "remove ?h 0 0 = Inl ValueError" by blast
  have b: "remove ?h 0 3
      = Inr [FleetGroup [65] [2, 1], Vehicle [66] [67], Vehicle [68] [67], Vehicle [66] [67]]"
    by (simp add: remove_def py_eq_def lookup_def)
  have c: "display (Suc (Suc 0))
        [FleetGroup [65] [2, 1], Vehicle [66] [67], Vehicle [68] [67], Vehicle [66] [67]] 0 0
     = Inr [65, 58, 10, 32, 32, 68, 32, 40, 67, 41, 10, 32, 32, 66, 32, 40, 67, 41]"
    by (simp add: lookup_def spaces_def eval_nat_numeral)
  from a b c show ?thesis by simp
qed

section \<open>Properties of the registry\<close>

lemma lookup_append:
  "lookup (h @ h') a = (if a < length h then lookup h a else lookup h' (a - length h))"
  by (auto simp: lookup_def nth_append)

lemma lookup_update:
  "lookup (h[a := c]) b = (if a = b \<and> b < length h then Some c else lookup h b)"
  by (simp add: lookup_def)

lemma lookup_Some_lt: "lookup h a = Some c \<Longrightarrow> a < length h"
  by (simp add: lookup_def split: if_splits)

lemma lookup_ge: "length h \<le> a \<Longrightarrow> lookup h a = None"
  by (simp add: lookup_def)

lemma lookup_single: "lookup [c] a = (if a = 0 then Some c else None)"
  by (simp add: lookup_def)

lemma dict_set_absent: "map_of d k = None \<Longrightarrow> dict_set d k v = d @ [(k, v)]"
  by (induction d) (auto split: if_splits)

lemma add_vehicle_new:
  assumes "map_of (energy_groups a) es = None"
    and "lookup (heap a) (root_group a) = Some (FleetGroup rn rcs)"
  shows "add_vehicle rt a nm es
    = Inr (a\<lparr>heap := (heap a)[root_group a := FleetGroup rn (rcs @ [length (heap a)])]
                 @ [FleetGroup (capitalize rt es) [Suc (length (heap a))], Vehicle nm es],
             energy_groups := energy_groups a @ [(es, length (heap a))]\<rparr>)"
proof -
  from assms(2) have r: "root_group a < length (heap a)" by (rule lookup_Some_lt)
  have g: "get_or_create_energy_group rt a es
    = Inr (a\<lparr>heap := (heap a)[root_group a := FleetGroup rn (rcs @ [length (heap a)])]
                 @ [FleetGroup (capitalize rt es) []],
             energy_groups := energy_groups a @ [(es, length (heap a))]\<rparr>, length (heap a))"
    using assms r
    by (simp add: get_or_create_energy_group_def alloc_def add_def lookup_append
        dict_set_absent list_update_append map_add_def)
  show ?thesis
    using r by (simp add: add_vehicle_def g alloc_def add_def lookup_append lookup_single
        list_update_append)
qed

lemma add_vehicle_existing:
  assumes "map_of (energy_groups a) es = Some g"
    and "lookup (heap a) g = Some (FleetGroup gn vs)"
  shows "add_vehicle rt a nm es
    = Inr (a\<lparr>heap := (heap a)[g := FleetGroup gn (vs @ [length (heap a)])] @ [Vehicle nm es]\<rparr>)"
proof -
  from assms(2) have r: "g < length (heap a)" by (rule lookup_Some_lt)
  have g: "get_or_create_energy_group rt a es = Inr (a, g)"
    using assms by (simp add: get_or_create_energy_group_def)
  show ?thesis
    using r assms(2) by (simp add: add_vehicle_def g alloc_def add_def lookup_append
        list_update_append)
qed


lemma registry_inv_init: "registry_inv init_app []"
  by (simp add: registry_inv_def init_app_def alloc_def lookup_def)

lemma kids_lookup: "lookup h g = Some (FleetGroup gn cs) \<Longrightarrow> kids h g = cs"
  by (simp add: kids_def)

lemma kid_is_vehicle:
  assumes "map (lookup h) ks = map (\<lambda>c. Some (Vehicle (fst c) (snd c))) cs" and "x \<in> set ks"
  shows "\<exists>n e. lookup h x = Some (Vehicle n e)"
proof -
  from assms(2) have "lookup h x \<in> set (map (lookup h) ks)" by simp
  with assms(1) show ?thesis by auto
qed

lemma concat_map_insert:
  assumes "distinct gs" and "g \<in> set gs" and "k' g = k g @ [v]"
    and "\<forall>x\<in>set gs. x \<noteq> g \<longrightarrow> k' x = k x"
  shows "\<exists>L1 L2. concat (map k gs) = L1 @ L2 \<and> concat (map k' gs) = L1 @ v # L2"
proof -
  from assms(2) obtain gs1 gs2 where gs: "gs = gs1 @ g # gs2" by (auto dest: split_list)
  with assms(1) have n: "g \<notin> set gs1" "g \<notin> set gs2" by auto
  have eq: "map k' gs1 = map k gs1" "map k' gs2 = map k gs2"
    using assms(4) n gs by auto
  have "concat (map k gs) = (concat (map k gs1) @ k g) @ concat (map k gs2)
      \<and> concat (map k' gs) = (concat (map k gs1) @ k g) @ v # concat (map k gs2)"
    unfolding gs by (simp add: eq assms(3))
  then show ?thesis by blast
qed


lemma registry_invD:
  assumes "registry_inv a calls"
  shows "\<exists>rn. lookup (heap a) (root_group a) = Some (FleetGroup rn (map snd (energy_groups a)))"
    and "distinct (map fst (energy_groups a))"
    and "distinct (map snd (energy_groups a))"
    and "root_group a \<notin> set (map snd (energy_groups a))"
    and "set (map fst (energy_groups a)) = snd ` set calls"
    and "\<forall>(t, g)\<in>set (energy_groups a).
         (\<exists>gn cs. lookup (heap a) g = Some (FleetGroup gn cs))
       \<and> map (lookup (heap a)) (kids (heap a) g)
           = map (\<lambda>c. Some (Vehicle (fst c) (snd c))) (filter (\<lambda>c. snd c = t) calls)"
    and "distinct (concat (map (kids (heap a)) (map snd (energy_groups a))))"
    and "length (concat (map (kids (heap a)) (map snd (energy_groups a)))) = length calls"
  using assms unfolding registry_inv_def by blast+

lemma registry_invI:
  assumes "\<exists>rn. lookup (heap a) (root_group a) = Some (FleetGroup rn (map snd (energy_groups a)))"
    and "distinct (map fst (energy_groups a))"
    and "distinct (map snd (energy_groups a))"
    and "root_group a \<notin> set (map snd (energy_groups a))"
    and "set (map fst (energy_groups a)) = snd ` set calls"
    and "\<forall>(t, g)\<in>set (energy_groups a).
         (\<exists>gn cs. lookup (heap a) g = Some (FleetGroup gn cs))
       \<and> map (lookup (heap a)) (kids (heap a) g)
           = map (\<lambda>c. Some (Vehicle (fst c) (snd c))) (filter (\<lambda>c. snd c = t) calls)"
    and "distinct (concat (map (kids (heap a)) (map snd (energy_groups a))))"
    and "length (concat (map (kids (heap a)) (map snd (energy_groups a)))) = length calls"
  shows "registry_inv a calls"
  unfolding registry_inv_def using assms by (intro conjI)

lemma registry_inv_kid:
  assumes "registry_inv a calls" and "(t, g) \<in> set (energy_groups a)"
    and "x \<in> set (kids (heap a) g)"
  shows "\<exists>n e. lookup (heap a) x = Some (Vehicle n e)"
proof -
  from registry_invD(6) [OF assms(1)] assms(2)
  have "map (lookup (heap a)) (kids (heap a) g)
      = map (\<lambda>c. Some (Vehicle (fst c) (snd c))) (filter (\<lambda>c. snd c = t) calls)"
    by blast
  from kid_is_vehicle [OF this assms(3)] show ?thesis .
qed

lemma registry_inv_group:
  assumes "registry_inv a calls" and "(t, g) \<in> set (energy_groups a)"
  shows "\<exists>gn cs. lookup (heap a) g = Some (FleetGroup gn cs)"
  using registry_invD(6) [OF assms(1)] assms(2) by blast

lemma registry_inv_existing:
  assumes inv: "registry_inv a calls"
    and m: "map_of (energy_groups a) es = Some g"
    and l: "lookup (heap a) g = Some (FleetGroup gn vs)"
  shows "registry_inv
           (a\<lparr>heap := (heap a)[g := FleetGroup gn (vs @ [length (heap a)])] @ [Vehicle nm es]\<rparr>)
           (calls @ [(nm, es)])"
proof -
  let ?h = "heap a"
  let ?hh = "?h[g := FleetGroup gn (vs @ [length ?h])] @ [Vehicle nm es]"
  let ?eg = "energy_groups a"
  let ?r = "root_group a"
  note i = registry_invD [OF inv]
  from l have gl: "g < length ?h" by (rule lookup_Some_lt)
  from m have mem: "(es, g) \<in> set ?eg" by (rule map_of_SomeD)
  from mem have gin: "g \<in> set (map snd ?eg)" by force
  from gin i(4) have gr: "g \<noteq> ?r" by blast
  have lk: "lookup ?hh x = (if x = g then Some (FleetGroup gn (vs @ [length ?h]))
      else if x = length ?h then Some (Vehicle nm es) else lookup ?h x)" for x
    using gl by (simp add: lookup_append lookup_update lookup_single lookup_ge)
  have lk_old: "lookup ?hh x = lookup ?h x" if "x \<noteq> g" "x < length ?h" for x
    using that by (simp add: lk)
  have kg: "kids ?hh g = kids ?h g @ [length ?h]"
    using l by (simp add: kids_def lk)
  have ko: "kids ?hh x = kids ?h x" if "x \<noteq> g" for x
    using that by (simp add: kids_def lk lookup_ge)
  have veh: "lookup ?hh x = lookup ?h x" if "(t, g') \<in> set ?eg" "x \<in> set (kids ?h g')" for t g' x
  proof -
    from registry_inv_kid [OF inv that] obtain n e where v: "lookup ?h x = Some (Vehicle n e)"
      by blast
    then have "x < length ?h" by (rule lookup_Some_lt)
    moreover from v l have "x \<noteq> g" by auto
    ultimately show ?thesis by (rule lk_old [rotated])
  qed
  from i(1) obtain rn where rl: "lookup ?h ?r = Some (FleetGroup rn (map snd ?eg))" by blast
  then have "?r < length ?h" by (rule lookup_Some_lt)
  with gr rl have 1: "\<exists>rn. lookup ?hh ?r = Some (FleetGroup rn (map snd ?eg))"
    by (simp add: lk_old)
  from mem have "es \<in> set (map fst ?eg)" by force
  with i(5) have 5: "set (map fst ?eg) = snd ` set (calls @ [(nm, es)])" by auto
  have 6: "\<forall>(t, g')\<in>set ?eg.
         (\<exists>gn cs. lookup ?hh g' = Some (FleetGroup gn cs))
       \<and> map (lookup ?hh) (kids ?hh g')
           = map (\<lambda>c. Some (Vehicle (fst c) (snd c))) (filter (\<lambda>c. snd c = t) (calls @ [(nm, es)]))"
  proof (intro ballI, clarify)
    fix t g' assume tg: "(t, g') \<in> set ?eg"
    from registry_inv_group [OF inv tg] obtain gn' cs' where
      old1: "lookup ?h g' = Some (FleetGroup gn' cs')" by blast
    from i(6) tg have old2: "map (lookup ?h) (kids ?h g')
           = map (\<lambda>c. Some (Vehicle (fst c) (snd c))) (filter (\<lambda>c. snd c = t) calls)"
      by blast
    have same: "map (lookup ?hh) (kids ?h g') = map (lookup ?h) (kids ?h g')"
      using veh [OF tg] by simp
    show "(\<exists>gn cs. lookup ?hh g' = Some (FleetGroup gn cs))
       \<and> map (lookup ?hh) (kids ?hh g')
           = map (\<lambda>c. Some (Vehicle (fst c) (snd c))) (filter (\<lambda>c. snd c = t) (calls @ [(nm, es)]))"
    proof (cases "g' = g")
      case True
      from i(3) tg mem True have "t = es"
        by (simp add: distinct_map inj_on_def) force
      with True old2 same gl show ?thesis by (simp add: kg lk)
    next
      case False
      from i(2) tg mem False have "t \<noteq> es"
        by (simp add: distinct_map inj_on_def) force
      moreover from old1 have "g' < length ?h" by (rule lookup_Some_lt)
      with False have "lookup ?hh g' = lookup ?h g'" by (rule lk_old)
      ultimately show ?thesis using False old1 old2 same by (simp add: ko)
    qed
  qed
  have fresh: "length ?h \<notin> set (concat (map (kids ?h) (map snd ?eg)))"
  proof
    assume "length ?h \<in> set (concat (map (kids ?h) (map snd ?eg)))"
    then obtain t g' where tg: "(t, g') \<in> set ?eg" "length ?h \<in> set (kids ?h g')" by auto
    from registry_inv_kid [OF inv tg] obtain n e where "lookup ?h (length ?h) = Some (Vehicle n e)"
      by blast
    then have "length ?h < length ?h" by (rule lookup_Some_lt)
    then show False by simp
  qed
  from concat_map_insert [where k = "kids ?h" and k' = "kids ?hh", OF i(3) gin kg] ko
  obtain L1 L2 where L: "concat (map (kids ?h) (map snd ?eg)) = L1 @ L2"
    "concat (map (kids ?hh) (map snd ?eg)) = L1 @ length ?h # L2" by blast
  have 7: "distinct (concat (map (kids ?hh) (map snd ?eg)))"
    using i(7) fresh unfolding L by auto
  have 8: "length (concat (map (kids ?hh) (map snd ?eg))) = length (calls @ [(nm, es)])"
    using i(8) unfolding L by simp
  show ?thesis
    by (rule registry_invI) (use 1 i(2) i(3) i(4) 5 6 7 8 in simp_all)
qed

lemma lookup_pair:
  "lookup [c1, c2] k = (if k = 0 then Some c1 else if k = Suc 0 then Some c2 else None)"
  by (auto simp: lookup_def nth_Cons split: nat.splits)

lemma registry_inv_new:
  assumes inv: "registry_inv a calls"
    and m: "map_of (energy_groups a) es = None"
    and l: "lookup (heap a) (root_group a) = Some (FleetGroup rn rcs)"
  shows "registry_inv
           (a\<lparr>heap := (heap a)[root_group a := FleetGroup rn (rcs @ [length (heap a)])]
                 @ [FleetGroup c [Suc (length (heap a))], Vehicle nm es],
             energy_groups := energy_groups a @ [(es, length (heap a))]\<rparr>)
           (calls @ [(nm, es)])"
proof -
  let ?h = "heap a"
  let ?n = "length ?h"
  let ?r = "root_group a"
  let ?hh = "?h[?r := FleetGroup rn (rcs @ [?n])] @ [FleetGroup c [Suc ?n], Vehicle nm es]"
  let ?eg = "energy_groups a"
  note i = registry_invD [OF inv]
  from l have rl: "?r < ?n" by (rule lookup_Some_lt)
  from i(1) l have rcs: "rcs = map snd ?eg" by auto
  from m have esn: "es \<notin> set (map fst ?eg)" by (simp add: map_of_eq_None_iff)
  have glt: "g < ?n" if "(t, g) \<in> set ?eg" for t g
  proof -
    from registry_inv_group [OF inv that] obtain gn cs where
      "lookup ?h g = Some (FleetGroup gn cs)" by blast
    then show ?thesis by (rule lookup_Some_lt)
  qed
  have nn: "?n \<notin> set (map snd ?eg)"
  proof
    assume "?n \<in> set (map snd ?eg)"
    then obtain t where "(t, ?n) \<in> set ?eg" by auto
    from glt [OF this] show False by simp
  qed
  have lk: "lookup ?hh x = (if x = ?r then Some (FleetGroup rn (rcs @ [?n]))
      else if x = ?n then Some (FleetGroup c [Suc ?n])
      else if x = Suc ?n then Some (Vehicle nm es) else lookup ?h x)" for x
    using rl by (auto simp: lookup_append lookup_update lookup_ge lookup_pair)
  have lk_old: "lookup ?hh x = lookup ?h x" if "x \<noteq> ?r" "x < ?n" for x
    using that by (simp add: lk)
  have ko: "kids ?hh x = kids ?h x" if "x \<noteq> ?r" "x < ?n" for x
    using that by (simp add: kids_def lk_old)
  have kn: "kids ?hh ?n = [Suc ?n]"
    using rl by (simp add: kids_def lk)
  have kold: "kids ?h ?n = []"
    by (simp add: kids_def lookup_ge)
  have veh: "lookup ?hh x = lookup ?h x" if "(t, g') \<in> set ?eg" "x \<in> set (kids ?h g')" for t g' x
  proof -
    from registry_inv_kid [OF inv that] obtain n e where v: "lookup ?h x = Some (Vehicle n e)"
      by blast
    then have "x < ?n" by (rule lookup_Some_lt)
    moreover from v l have "x \<noteq> ?r" by auto
    ultimately show ?thesis by (rule lk_old [rotated])
  qed
  have gold: "g' \<noteq> ?r \<and> g' < ?n" if "(t, g') \<in> set ?eg" for t g'
  proof -
    from that have "g' \<in> set (map snd ?eg)" by force
    with i(4) have "g' \<noteq> ?r" by blast
    with glt [OF that] show ?thesis by simp
  qed
  have "lookup ?hh ?r = Some (FleetGroup rn (rcs @ [?n]))"
    by (simp add: lk)
  then have 1: "\<exists>rn. lookup ?hh ?r = Some (FleetGroup rn (map snd (?eg @ [(es, ?n)])))"
    by (simp add: rcs)
  have 2: "distinct (map fst (?eg @ [(es, ?n)]))"
    using i(2) esn by simp
  have 3: "distinct (map snd (?eg @ [(es, ?n)]))"
    using i(3) nn by simp
  have 4: "?r \<notin> set (map snd (?eg @ [(es, ?n)]))"
    using i(4) rl by simp
  have 5: "set (map fst (?eg @ [(es, ?n)])) = snd ` set (calls @ [(nm, es)])"
    using i(5) by simp
  have none: "filter (\<lambda>c. snd c = es) calls = []"
  proof -
    from esn i(5) have "es \<notin> snd ` set calls" by simp
    then show ?thesis by (auto simp: filter_empty_conv)
  qed
  have 6: "\<forall>(t, g')\<in>set (?eg @ [(es, ?n)]).
         (\<exists>gn cs. lookup ?hh g' = Some (FleetGroup gn cs))
       \<and> map (lookup ?hh) (kids ?hh g')
           = map (\<lambda>c. Some (Vehicle (fst c) (snd c))) (filter (\<lambda>c. snd c = t) (calls @ [(nm, es)]))"
  proof (intro ballI, clarify)
    fix t g' assume "(t, g') \<in> set (?eg @ [(es, ?n)])"
    then consider (old) "(t, g') \<in> set ?eg" | (new) "t = es" "g' = ?n" by auto
    then show "(\<exists>gn cs. lookup ?hh g' = Some (FleetGroup gn cs))
       \<and> map (lookup ?hh) (kids ?hh g')
           = map (\<lambda>c. Some (Vehicle (fst c) (snd c))) (filter (\<lambda>c. snd c = t) (calls @ [(nm, es)]))"
    proof cases
      case old
      from registry_inv_group [OF inv old] obtain gn' cs' where
        old1: "lookup ?h g' = Some (FleetGroup gn' cs')" by blast
      from i(6) old have old2: "map (lookup ?h) (kids ?h g')
           = map (\<lambda>c. Some (Vehicle (fst c) (snd c))) (filter (\<lambda>c. snd c = t) calls)"
        by blast
      have same: "map (lookup ?hh) (kids ?h g') = map (lookup ?h) (kids ?h g')"
        using veh [OF old] by simp
      from old have "t \<in> set (map fst ?eg)" by force
      with esn have te: "t \<noteq> es" by blast
      from gold [OF old] have g: "g' \<noteq> ?r" "g' < ?n" by simp_all
      from g have "lookup ?hh g' = lookup ?h g'" by (rule lk_old)
      moreover from g have "kids ?hh g' = kids ?h g'" by (rule ko)
      ultimately show ?thesis using old1 old2 same te by simp
    next
      case new
      have "lookup ?hh ?n = Some (FleetGroup c [Suc ?n])"
        using rl by (simp add: lk)
      moreover have "lookup ?hh (Suc ?n) = Some (Vehicle nm es)"
        using rl by (simp add: lk)
      ultimately show ?thesis using new none by (simp add: kn)
    qed
  qed
  have eqk: "map (kids ?hh) (map snd ?eg) = map (kids ?h) (map snd ?eg)"
  proof (rule map_cong [OF refl])
    fix g' assume "g' \<in> set (map snd ?eg)"
    then obtain t where "(t, g') \<in> set ?eg" by auto
    from gold [OF this] show "kids ?hh g' = kids ?h g'" by (simp add: ko)
  qed
  have cc: "concat (map (kids ?hh) (map snd (?eg @ [(es, ?n)])))
      = concat (map (kids ?h) (map snd ?eg)) @ [Suc ?n]"
    by (simp add: eqk kn del: map_map)
  have fresh: "Suc ?n \<notin> set (concat (map (kids ?h) (map snd ?eg)))"
  proof
    assume "Suc ?n \<in> set (concat (map (kids ?h) (map snd ?eg)))"
    then obtain t g' where tg: "(t, g') \<in> set ?eg" "Suc ?n \<in> set (kids ?h g')" by auto
    from registry_inv_kid [OF inv tg] obtain n e where "lookup ?h (Suc ?n) = Some (Vehicle n e)"
      by blast
    then have "Suc ?n < ?n" by (rule lookup_Some_lt)
    then show False by simp
  qed
  have 7: "distinct (concat (map (kids ?hh) (map snd (?eg @ [(es, ?n)]))))"
    unfolding cc using i(7) fresh by simp
  have 8: "length (concat (map (kids ?hh) (map snd (?eg @ [(es, ?n)])))) = length (calls @ [(nm, es)])"
    unfolding cc using i(8) by simp
  show ?thesis
    by (rule registry_invI) (use 1 2 3 4 5 6 7 8 in simp_all)
qed

lemma add_vehicle_step:
  assumes inv: "registry_inv a calls"
  shows "\<exists>a'. add_vehicle rt a nm es = Inr a'
           \<and> registry_inv a' (calls @ [(nm, es)])
           \<and> root_group a' = root_group a
           \<and> (\<forall>t g. map_of (energy_groups a) t = Some g \<longrightarrow> map_of (energy_groups a') t = Some g)"
proof (cases "map_of (energy_groups a) es")
  case None
  from registry_invD(1) [OF inv] obtain rn where
    l: "lookup (heap a) (root_group a) = Some (FleetGroup rn (map snd (energy_groups a)))"
    by blast
  let ?a' = "a\<lparr>heap := (heap a)[root_group a :=
                   FleetGroup rn (map snd (energy_groups a) @ [length (heap a)])]
                 @ [FleetGroup (capitalize rt es) [Suc (length (heap a))], Vehicle nm es],
             energy_groups := energy_groups a @ [(es, length (heap a))]\<rparr>"
  have "add_vehicle rt a nm es = Inr ?a'" using None l by (rule add_vehicle_new)
  moreover have "registry_inv ?a' (calls @ [(nm, es)])" using inv None l by (rule registry_inv_new)
  moreover have "root_group ?a' = root_group a" by simp
  moreover have "\<forall>t g. map_of (energy_groups a) t = Some g \<longrightarrow> map_of (energy_groups ?a') t = Some g"
    by (simp add: map_add_Some_iff)
  ultimately show ?thesis by blast
next
  case (Some g)
  then have "(es, g) \<in> set (energy_groups a)" by (rule map_of_SomeD)
  from registry_inv_group [OF inv this] obtain gn vs where
    l: "lookup (heap a) g = Some (FleetGroup gn vs)" by blast
  let ?a' = "a\<lparr>heap := (heap a)[g := FleetGroup gn (vs @ [length (heap a)])] @ [Vehicle nm es]\<rparr>"
  have "add_vehicle rt a nm es = Inr ?a'" using Some l by (rule add_vehicle_existing)
  moreover have "registry_inv ?a' (calls @ [(nm, es)])" using inv Some l by (rule registry_inv_existing)
  moreover have "root_group ?a' = root_group a" by simp
  moreover have "\<forall>t g. map_of (energy_groups a) t = Some g \<longrightarrow> map_of (energy_groups ?a') t = Some g"
    by simp
  ultimately show ?thesis by blast
qed

lemma exec_calls_inv:
  assumes "registry_inv a calls" and "exec_calls rt a cs = Inr a'"
  shows "registry_inv a' (calls @ added cs) \<and> root_group a' = root_group a
       \<and> (\<forall>t g. map_of (energy_groups a) t = Some g \<longrightarrow> map_of (energy_groups a') t = Some g)"
  using assms
proof (induction cs arbitrary: a calls)
  case Nil
  then show ?case by simp
next
  case (Cons c cs)
  show ?case
  proof (cases c)
    case (AddVehicle nm es)
    from add_vehicle_step [OF Cons.prems(1), of rt nm es] obtain a1 where
      s: "add_vehicle rt a nm es = Inr a1" "registry_inv a1 (calls @ [(nm, es)])"
      "root_group a1 = root_group a"
      "\<forall>t g. map_of (energy_groups a) t = Some g \<longrightarrow> map_of (energy_groups a1) t = Some g"
      by blast
    from Cons.prems(2) AddVehicle s(1) have "exec_calls rt a1 cs = Inr a'" by simp
    from Cons.IH [OF s(2) this] s(3,4) AddVehicle show ?thesis by simp
  next
    case Render
    with Cons.prems(2) have "exec_calls rt a cs = Inr a'" by (simp split: sum.splits)
    from Cons.IH [OF Cons.prems(1) this] Render show ?thesis by simp
  qed
qed

lemma exec_adds_ok:
  assumes "registry_inv a calls"
  shows "\<exists>a'. exec_calls rt a (map (\<lambda>(nm, es). AddVehicle nm es) cs) = Inr a'"
  using assms
proof (induction cs arbitrary: a calls)
  case Nil
  then show ?case by simp
next
  case (Cons c cs)
  obtain nm es where c: "c = (nm, es)" by (cases c)
  from add_vehicle_step [OF Cons.prems, of rt nm es] obtain a1 where
    s: "add_vehicle rt a nm es = Inr a1" "registry_inv a1 (calls @ [(nm, es)])" by blast
  from Cons.IH [OF s(2)] s(1) c show ?case by simp
qed

lemma added_adds: "added (map (\<lambda>(nm, es). AddVehicle nm es) cs) = cs"
  by (induction cs) auto

lemma leaves_registry:
  assumes inv: "registry_inv a calls"
  shows "leaves (Suc (Suc (Suc d))) (heap a) (root_group a)
       = concat (map (kids (heap a)) (map snd (energy_groups a)))"
proof -
  let ?h = "heap a"
  from registry_invD(1) [OF inv] obtain rn where
    l: "lookup ?h (root_group a) = Some (FleetGroup rn (map snd (energy_groups a)))" by blast
  have g: "leaves (Suc (Suc d)) ?h g = kids ?h g" if "g \<in> set (map snd (energy_groups a))" for g
  proof -
    from that obtain t where tg: "(t, g) \<in> set (energy_groups a)" by auto
    from registry_inv_group [OF inv tg] obtain gn cs where
      lg: "lookup ?h g = Some (FleetGroup gn cs)" by blast
    then have k: "kids ?h g = cs" by (rule kids_lookup)
    have sing: "leaves (Suc d) ?h x = [x]" if "x \<in> set cs" for x
    proof -
      from that k have "x \<in> set (kids ?h g)" by simp
      from registry_inv_kid [OF inv tg this] show ?thesis by auto
    qed
    have eq: "map (leaves (Suc d) ?h) cs = map (\<lambda>x. [x]) cs"
      by (rule map_cong [OF refl]) (rule sing)
    have "concat (map (leaves (Suc d) ?h) cs) = cs"
      unfolding eq by simp
    with lg k show ?thesis by simp
  qed
  have eq: "map (leaves (Suc (Suc d)) ?h) (map snd (energy_groups a))
      = map (kids ?h) (map snd (energy_groups a))"
    by (rule map_cong [OF refl]) (rule g)
  have "leaves (Suc (Suc (Suc d))) ?h (root_group a)
      = concat (map (leaves (Suc (Suc d)) ?h) (map snd (energy_groups a)))"
    using l by (simp del: leaves.simps(2) add: leaves.simps(2) [of "Suc (Suc d)"])
  then show ?thesis unfolding eq .
qed

text \<open>
  Claim C1. After any sequence of \<open>add_vehicle\<close> calls on a new registry (valid names and
  sources; the calls never raise), the leaves below the root are as many as the calls
  and pairwise distinct objects, so equal arguments give separate leaves; and for every
  energy source used, the group registered for it is a child of the root whose children
  are leaves holding exactly the vehicles of the calls with that source, in call order
  (each was appended).
\<close>

theorem add_vehicle_calls:
  fixes calls :: "(ustr \<times> ustr) list"
  assumes "\<forall>(nm, es)\<in>set calls. nm \<noteq> [] \<and> es \<in> set sources"
  shows "\<exists>a. exec_calls rt init_app (map (\<lambda>(nm, es). AddVehicle nm es) calls) = Inr a
       \<and> length (leaves (Suc (Suc (Suc d))) (heap a) (root_group a)) = length calls
       \<and> distinct (leaves (Suc (Suc (Suc d))) (heap a) (root_group a))
       \<and> (\<forall>es\<in>snd ` set calls. \<exists>g gn cs.
             map_of (energy_groups a) es = Some g
           \<and> g \<in> set (kids (heap a) (root_group a))
           \<and> lookup (heap a) g = Some (FleetGroup gn cs)
           \<and> set cs \<subseteq> set (leaves (Suc (Suc (Suc d))) (heap a) (root_group a))
           \<and> map (lookup (heap a)) cs
               = map (\<lambda>c. Some (Vehicle (fst c) (snd c))) (filter (\<lambda>c. snd c = es) calls))"
proof -
  let ?cs = "map (\<lambda>(nm, es). AddVehicle nm es) calls"
  from exec_adds_ok [OF registry_inv_init] obtain a where
    e: "exec_calls rt init_app ?cs = Inr a" by blast
  from exec_calls_inv [OF registry_inv_init e] have inv: "registry_inv a calls"
    by (simp add: added_adds)
  note i = registry_invD [OF inv]
  let ?h = "heap a"
  let ?L = "leaves (Suc (Suc (Suc d))) ?h (root_group a)"
  have L: "?L = concat (map (kids ?h) (map snd (energy_groups a)))"
    using inv by (rule leaves_registry)
  from i(1) have kr: "kids ?h (root_group a) = map snd (energy_groups a)"
    by (auto simp: kids_def)
  have groups: "\<forall>es\<in>snd ` set calls. \<exists>g gn cs.
             map_of (energy_groups a) es = Some g
           \<and> g \<in> set (kids ?h (root_group a))
           \<and> lookup ?h g = Some (FleetGroup gn cs)
           \<and> set cs \<subseteq> set ?L
           \<and> map (lookup ?h) cs
               = map (\<lambda>c. Some (Vehicle (fst c) (snd c))) (filter (\<lambda>c. snd c = es) calls)"
  proof
    fix es assume "es \<in> snd ` set calls"
    with i(5) have "es \<in> set (map fst (energy_groups a))" by simp
    then obtain g where tg: "(es, g) \<in> set (energy_groups a)" by auto
    with i(2) have m: "map_of (energy_groups a) es = Some g" by (simp add: map_of_is_SomeI)
    from tg have gin: "g \<in> set (map snd (energy_groups a))" by force
    from registry_inv_group [OF inv tg] obtain gn cs where
      lg: "lookup ?h g = Some (FleetGroup gn cs)" by blast
    then have k: "kids ?h g = cs" by (rule kids_lookup)
    from i(6) tg k have c: "map (lookup ?h) cs
        = map (\<lambda>c. Some (Vehicle (fst c) (snd c))) (filter (\<lambda>c. snd c = es) calls)"
      by blast
    from gin k have "set cs \<subseteq> set ?L" unfolding L by auto
    with m gin lg c kr show "\<exists>g gn cs.
             map_of (energy_groups a) es = Some g
           \<and> g \<in> set (kids ?h (root_group a))
           \<and> lookup ?h g = Some (FleetGroup gn cs)
           \<and> set cs \<subseteq> set ?L
           \<and> map (lookup ?h) cs
               = map (\<lambda>c. Some (Vehicle (fst c) (snd c))) (filter (\<lambda>c. snd c = es) calls)"
      by auto
  qed
  from i(7,8) have "length ?L = length calls" "distinct ?L" unfolding L by simp_all
  with e groups show ?thesis by blast
qed

text \<open>
  Claim C3. In every state \<open>a2\<close> reached by \<open>add_vehicle\<close> and \<open>render\<close> calls, the keys
  of \<open>energy_groups\<close> are not repeated and neither are the groups, every key maps to a
  group that is a direct child of the root, and the root's children are exactly the
  registered groups; a key present in an earlier state \<open>a1\<close> maps to the same group
  in every later state.
\<close>

theorem registry_groups_invariant:
  assumes "exec_calls rt init_app cs1 = Inr a1" and "exec_calls rt a1 cs2 = Inr a2"
  shows "(\<exists>rn. lookup (heap a2) (root_group a2)
             = Some (FleetGroup rn (map snd (energy_groups a2))))
       \<and> distinct (map fst (energy_groups a2))
       \<and> distinct (map snd (energy_groups a2))
       \<and> (\<forall>t g. map_of (energy_groups a2) t = Some g \<longrightarrow>
             (\<exists>gn cs. lookup (heap a2) g = Some (FleetGroup gn cs))
           \<and> g \<in> set (kids (heap a2) (root_group a2)))
       \<and> (\<forall>t g. map_of (energy_groups a1) t = Some g \<longrightarrow> map_of (energy_groups a2) t = Some g)
       \<and> root_group a2 = root_group a1"
proof -
  from exec_calls_inv [OF registry_inv_init assms(1)]
  have inv1: "registry_inv a1 (added cs1)" by simp
  from exec_calls_inv [OF inv1 assms(2)]
  have inv2: "registry_inv a2 (added cs1 @ added cs2)"
    and r: "root_group a2 = root_group a1"
    and keep: "\<forall>t g. map_of (energy_groups a1) t = Some g \<longrightarrow> map_of (energy_groups a2) t = Some g"
    by blast+
  note i = registry_invD [OF inv2]
  from i(1) have kr: "kids (heap a2) (root_group a2) = map snd (energy_groups a2)"
    by (auto simp: kids_def)
  have reg: "\<forall>t g. map_of (energy_groups a2) t = Some g \<longrightarrow>
             (\<exists>gn cs. lookup (heap a2) g = Some (FleetGroup gn cs))
           \<and> g \<in> set (kids (heap a2) (root_group a2))"
  proof (intro allI impI)
    fix t g assume "map_of (energy_groups a2) t = Some g"
    then have tg: "(t, g) \<in> set (energy_groups a2)" by (rule map_of_SomeD)
    then have "g \<in> set (map snd (energy_groups a2))" by force
    with registry_inv_group [OF inv2 tg] kr
    show "(\<exists>gn cs. lookup (heap a2) g = Some (FleetGroup gn cs))
           \<and> g \<in> set (kids (heap a2) (root_group a2))" by simp
  qed
  from i(1,2,3) reg keep r show ?thesis by blast
qed

theorem add_vehicle_calls_witness:
  "exec_calls cpython init_app
     [AddVehicle [66, 49] [1075, 1072, 1079],
      AddVehicle [66, 50] [1075, 1080, 1073, 1088, 1080, 1076],
      AddVehicle [66, 49] [1075, 1072, 1079]]
   = Inr \<lparr>heap =
        [FleetGroup [1040, 1074, 1090, 1086, 1087, 1072, 1088, 1082] [1, 3],
         FleetGroup [1043, 1072, 1079] [2, 5],
         Vehicle [66, 49] [1075, 1072, 1079],
         FleetGroup [1043, 1080, 1073, 1088, 1080, 1076] [4],
         Vehicle [66, 50] [1075, 1080, 1073, 1088, 1080, 1076],
         Vehicle [66, 49] [1075, 1072, 1079]],
        root_group = 0,
        energy_groups = [([1075, 1072, 1079], 1), ([1075, 1080, 1073, 1088, 1080, 1076], 3)]\<rparr>
   \<and> length (leaves (Suc (Suc (Suc 0)))
        [FleetGroup [1040, 1074, 1090, 1086, 1087, 1072, 1088, 1082] [1, 3],
         FleetGroup [1043, 1072, 1079] [2, 5],
         Vehicle [66, 49] [1075, 1072, 1079],
         FleetGroup [1043, 1080, 1073, 1088, 1080, 1076] [4],
         Vehicle [66, 50] [1075, 1080, 1073, 1088, 1080, 1076],
         Vehicle [66, 49] [1075, 1072, 1079]] 0) = 3"
proof -
  let ?calls = "[([66, 49], [1075, 1072, 1079]), ([66, 50], [1075, 1080, 1073, 1088, 1080, 1076]),
                 ([66, 49], [1075, 1072, 1079])] :: (ustr \<times> ustr) list"
  let ?h = "[FleetGroup [1040, 1074, 1090, 1086, 1087, 1072, 1088, 1082] [1, 3],
         FleetGroup [1043, 1072, 1079] [2, 5],
         Vehicle [66, 49] [1075, 1072, 1079],
         FleetGroup [1043, 1080, 1073, 1088, 1080, 1076] [4],
         Vehicle [66, 50] [1075, 1080, 1073, 1088, 1080, 1076],
         Vehicle [66, 49] [1075, 1072, 1079]]"
  let ?a = "\<lparr>heap = ?h, root_group = 0,
        energy_groups = [([1075, 1072, 1079], 1), ([1075, 1080, 1073, 1088, 1080, 1076], 3)]\<rparr>"
  have v: "\<forall>(nm, es)\<in>set ?calls. nm \<noteq> [] \<and> es \<in> set sources"
    by (simp add: sources_def)
  have e: "exec_calls cpython init_app (map (\<lambda>(nm, es). AddVehicle nm es) ?calls) = Inr ?a"
    by code_simp
  from add_vehicle_calls [OF v, of cpython 0] obtain a where
    a: "exec_calls cpython init_app (map (\<lambda>(nm, es). AddVehicle nm es) ?calls) = Inr a"
       "length (leaves (Suc (Suc (Suc 0))) (heap a) (root_group a)) = length ?calls"
    by blast
  from a(1) have "a = ?a" unfolding e by simp
  with a(2) have "length (leaves (Suc (Suc (Suc 0))) (heap ?a) (root_group ?a)) = length ?calls"
    by (simp only:)
  then have l: "length (leaves (Suc (Suc (Suc 0))) ?h 0) = 3"
    by (simp only: app.simps list.size length_Cons)
  have e': "exec_calls cpython init_app
     [AddVehicle [66, 49] [1075, 1072, 1079],
      AddVehicle [66, 50] [1075, 1080, 1073, 1088, 1080, 1076],
      AddVehicle [66, 49] [1075, 1072, 1079]] = Inr ?a"
    using e by (simp only: list.map prod.case)
  from e' l show ?thesis by (rule conjI)
qed

theorem registry_groups_invariant_witness:
  "exec_calls cpython init_app [AddVehicle [66, 49] [1075, 1072, 1079]]
     = Inr \<lparr>heap =
        [FleetGroup [1040, 1074, 1090, 1086, 1087, 1072, 1088, 1082] [1],
         FleetGroup [1043, 1072, 1079] [2],
         Vehicle [66, 49] [1075, 1072, 1079]],
        root_group = 0, energy_groups = [([1075, 1072, 1079], 1)]\<rparr>
   \<and> map_of (energy_groups \<lparr>heap =
        [FleetGroup [1040, 1074, 1090, 1086, 1087, 1072, 1088, 1082] [1, 3],
         FleetGroup [1043, 1072, 1079] [2, 5],
         Vehicle [66, 49] [1075, 1072, 1079],
         FleetGroup [1043, 1080, 1073, 1088, 1080, 1076] [4],
         Vehicle [66, 50] [1075, 1080, 1073, 1088, 1080, 1076],
         Vehicle [66, 49] [1075, 1072, 1079]],
        root_group = 0,
        energy_groups = [([1075, 1072, 1079], 1), ([1075, 1080, 1073, 1088, 1080, 1076], 3)]\<rparr>)
       [1075, 1072, 1079] = Some 1"
proof -
  let ?a1 = "\<lparr>heap =
        [FleetGroup [1040, 1074, 1090, 1086, 1087, 1072, 1088, 1082] [1],
         FleetGroup [1043, 1072, 1079] [2],
         Vehicle [66, 49] [1075, 1072, 1079]],
        root_group = 0, energy_groups = [([1075, 1072, 1079], 1)]\<rparr>"
  let ?a2 = "\<lparr>heap =
        [FleetGroup [1040, 1074, 1090, 1086, 1087, 1072, 1088, 1082] [1, 3],
         FleetGroup [1043, 1072, 1079] [2, 5],
         Vehicle [66, 49] [1075, 1072, 1079],
         FleetGroup [1043, 1080, 1073, 1088, 1080, 1076] [4],
         Vehicle [66, 50] [1075, 1080, 1073, 1088, 1080, 1076],
         Vehicle [66, 49] [1075, 1072, 1079]],
        root_group = 0,
        energy_groups = [([1075, 1072, 1079], 1), ([1075, 1080, 1073, 1088, 1080, 1076], 3)]\<rparr>"
  have e1: "exec_calls cpython init_app [AddVehicle [66, 49] [1075, 1072, 1079]] = Inr ?a1"
    by code_simp
  have e2: "exec_calls cpython ?a1
      [Render, AddVehicle [66, 50] [1075, 1080, 1073, 1088, 1080, 1076],
       AddVehicle [66, 49] [1075, 1072, 1079]] = Inr ?a2"
    by code_simp
  have m1: "map_of (energy_groups ?a1) [1075, 1072, 1079] = Some 1" by simp
  from registry_groups_invariant [OF e1 e2]
  have "\<forall>t g. map_of (energy_groups ?a1) t = Some g \<longrightarrow> map_of (energy_groups ?a2) t = Some g"
    by (elim conjE)
  with m1 have "map_of (energy_groups ?a2) [1075, 1072, 1079] = Some 1" by blast
  with e1 show ?thesis by (rule conjI)
qed

section \<open>Properties of the interaction loop\<close>

lemma print_sources_eq:
  "print_sources i ss c
   = c\<lparr>stdout := stdout c
        @ map (\<lambda>(k, s). Print (str k @ [46, 32] @ s)) (zip [i..<i + length ss] ss)\<rparr>"
proof (induction ss arbitrary: i c)
  case Nil
  then show ?case by simp
next
  case (Cons s ss)
  have "[i..<i + length (s # ss)] = i # [Suc i..<Suc i + length ss]"
    by (subst upt_rec) simp
  then show ?case by (simp add: Cons.IH print_def)
qed

lemma ask_energy_source_unfold:
  assumes "stdin c = sel # rest"
  shows "ask_energy_source rt c
    = (let c1 = c\<lparr>stdin := rest,
                   stdout := stdout c @ [Print msg_choose_source]
                     @ map (\<lambda>(k, s). Print (str k @ [46, 32] @ s)) (zip [1..<5] sources)
                     @ [Prompt prompt_choice]\<rparr>
       in if \<not> isdigit (strip sel) then Inr (None, print msg_need_number c1)
          else case py_int rt (strip sel) of
                 Inl e \<Rightarrow> Inl e
               | Inr v \<Rightarrow>
                   if v < 1 \<or> 4 < v then Inr (None, print msg_no_such_source c1)
                   else Inr (Some (sources ! nat (v - 1)), c1))"
proof -
  have len: "length sources = 4" by (simp add: sources_def)
  have "input prompt_choice (print_sources 1 sources (print msg_choose_source c))
    = Inr (sel, c\<lparr>stdin := rest,
                   stdout := stdout c @ [Print msg_choose_source]
                     @ map (\<lambda>(k, s). Print (str k @ [46, 32] @ s)) (zip [1..<5] sources)
                     @ [Prompt prompt_choice]\<rparr>)"
    using assms by (simp add: input_def print_sources_eq print_def len)
  then show ?thesis
    by (auto simp: ask_energy_source_def Let_def len split: sum.splits)
qed



lemma handle_add_vehicle_unfold:
  assumes "stdin c = line # rest"
  shows "handle_add_vehicle rt a c
    = (let c1 = c\<lparr>stdin := rest, stdout := stdout c @ [Prompt prompt_name]\<rparr> in
       if strip line = [] then Inr (a, print msg_empty_name c1)
       else case ask_energy_source rt c1 of
              Inl e \<Rightarrow> Inl e
            | Inr (None, c2) \<Rightarrow> Inr (a, c2)
            | Inr (Some es, c2) \<Rightarrow>
                (case add_vehicle rt a (strip line) es of
                   Inl e \<Rightarrow> Inl e
                 | Inr a' \<Rightarrow> Inr (a', print (msg_added (strip line) es) c2)))"
  using assms by (simp add: handle_add_vehicle_def input_def Let_def)


lemma strip_split:
  "\<exists>pre suf. s = pre @ strip s @ suf \<and> list_all py_isspace pre \<and> list_all py_isspace suf"
proof -
  let ?t = "dropWhile py_isspace s"
  have 1: "s = takeWhile py_isspace s @ ?t" by simp
  have "?t = rev (takeWhile py_isspace (rev ?t) @ dropWhile py_isspace (rev ?t))"
    by (simp only: takeWhile_dropWhile_id rev_rev_ident)
  also have "\<dots> = rev (dropWhile py_isspace (rev ?t)) @ rev (takeWhile py_isspace (rev ?t))"
    by (rule rev_append)
  finally have 2: "?t = strip s @ rev (takeWhile py_isspace (rev ?t))"
    unfolding strip_def .
  have 3: "list_all py_isspace (takeWhile py_isspace s)"
    by (simp add: list_all_iff) (meson set_takeWhileD)
  have 4: "list_all py_isspace (rev (takeWhile py_isspace (rev ?t)))"
    by (simp add: list_all_iff) (meson set_takeWhileD)
  from 1 2 have "s = takeWhile py_isspace s @ strip s @ rev (takeWhile py_isspace (rev ?t))"
    by metis
  with 3 4 show ?thesis by blast
qed

lemma strip_empty_iff: "strip s = [] \<longleftrightarrow> list_all py_isspace s"
proof
  assume e: "strip s = []"
  from strip_split [of s] obtain pre suf where
    p: "s = pre @ strip s @ suf" "list_all py_isspace pre" "list_all py_isspace suf" by blast
  from p(1) e have "s = pre @ suf" by simp
  then have "list_all py_isspace s = list_all py_isspace (pre @ suf)" by (rule arg_cong)
  with p(2,3) show "list_all py_isspace s" by simp
next
  assume "list_all py_isspace s"
  then have d: "dropWhile py_isspace s = []" by (induction s) simp_all
  show "strip s = []" unfolding strip_def by (simp only: d rev.simps dropWhile.simps)
qed

lemma strip_ends:
  assumes "strip s \<noteq> []"
  shows "\<not> py_isspace (hd (strip s)) \<and> \<not> py_isspace (last (strip s))"
proof -
  let ?t = "dropWhile py_isspace s"
  let ?u = "dropWhile py_isspace (rev ?t)"
  from assms have u: "?u \<noteq> []" by (simp add: strip_def)
  then have l: "\<not> py_isspace (hd ?u)" by (rule hd_dropWhile)
  have t: "?t \<noteq> []"
  proof
    assume "?t = []"
    then have "?u = []" by (simp only: rev.simps dropWhile.simps)
    with u show False by contradiction
  qed
  then have ht: "\<not> py_isspace (hd ?t)" by (rule hd_dropWhile)
  have "rev ?t = takeWhile py_isspace (rev ?t) @ ?u" by simp
  with u have "last (rev ?t) = last ?u" by (metis last_appendR)
  with t have "last ?u = hd ?t" by (simp add: last_rev)
  with u ht l show ?thesis by (simp add: strip_def hd_rev last_rev)
qed

lemma add_vehicle_last:
  assumes inv: "registry_inv a calls" and r: "add_vehicle rt a nm es = Inr a'"
  shows "last (heap a') = Vehicle nm es"
proof (cases "map_of (energy_groups a) es")
  case None
  from registry_invD(1) [OF inv] obtain rn where
    l: "lookup (heap a) (root_group a) = Some (FleetGroup rn (map snd (energy_groups a)))"
    by blast
  from add_vehicle_new [OF None l, of rt nm] r show ?thesis by auto
next
  case (Some g)
  then have "(es, g) \<in> set (energy_groups a)" by (rule map_of_SomeD)
  from registry_inv_group [OF inv this] obtain gn vs where
    l: "lookup (heap a) g = Some (FleetGroup gn vs)" by blast
  from add_vehicle_existing [OF Some l, of rt nm] r show ?thesis by auto
qed

text \<open>
  Claim C9. The name read by \<open>_handle_add_vehicle\<close> is stripped before it is checked and
  before it is stored: \<open>strip\<close> removes whitespace, and only whitespace, from both ends of
  the line; a line of whitespace only (or an empty line) is rejected with the message
  for an empty name and the registry is unchanged; and when a vehicle is created, in a
  registry reached by registry calls, the leaf holds the stripped name.
\<close>

theorem name_is_stripped:
  assumes "exec_calls rt init_app cs = Inr a" and "stdin c = line # rest"
  shows "(\<exists>pre suf. line = pre @ strip line @ suf
            \<and> list_all py_isspace pre \<and> list_all py_isspace suf)
       \<and> (strip line \<noteq> [] \<longrightarrow>
             \<not> py_isspace (hd (strip line)) \<and> \<not> py_isspace (last (strip line)))
       \<and> (list_all py_isspace line \<longrightarrow>
             handle_add_vehicle rt a c
               = Inr (a, c\<lparr>stdin := rest,
                            stdout := stdout c @ [Prompt prompt_name, Print msg_empty_name]\<rparr>))
       \<and> (\<forall>es c2.
             \<not> list_all py_isspace line \<longrightarrow>
             ask_energy_source rt (c\<lparr>stdin := rest, stdout := stdout c @ [Prompt prompt_name]\<rparr>)
               = Inr (Some es, c2) \<longrightarrow>
             (\<exists>a'. handle_add_vehicle rt a c = Inr (a', print (msg_added (strip line) es) c2)
                 \<and> add_vehicle rt a (strip line) es = Inr a'
                 \<and> last (heap a') = Vehicle (strip line) es))"
proof (intro conjI allI impI)
  show "\<exists>pre suf. line = pre @ strip line @ suf
      \<and> list_all py_isspace pre \<and> list_all py_isspace suf"
    by (rule strip_split)
next
  assume "strip line \<noteq> []"
  from strip_ends [OF this]
  show "\<not> py_isspace (hd (strip line))" and "\<not> py_isspace (last (strip line))" by simp_all
next
  assume "list_all py_isspace line"
  then have "strip line = []" by (simp add: strip_empty_iff)
  then show "handle_add_vehicle rt a c
      = Inr (a, c\<lparr>stdin := rest,
                   stdout := stdout c @ [Prompt prompt_name, Print msg_empty_name]\<rparr>)"
    by (simp add: handle_add_vehicle_unfold [OF assms(2)] print_def)
next
  fix es c2
  assume ne: "\<not> list_all py_isspace line"
    and ask: "ask_energy_source rt (c\<lparr>stdin := rest, stdout := stdout c @ [Prompt prompt_name]\<rparr>)
      = Inr (Some es, c2)"
  from ne have s: "strip line \<noteq> []" by (simp add: strip_empty_iff)
  from exec_calls_inv [OF registry_inv_init assms(1)]
  have inv: "registry_inv a (added cs)" by simp
  from add_vehicle_step [OF inv, of rt "strip line" es] obtain a' where
    a': "add_vehicle rt a (strip line) es = Inr a'" by blast
  from add_vehicle_last [OF inv a'] have l: "last (heap a') = Vehicle (strip line) es" .
  have "handle_add_vehicle rt a c = Inr (a', print (msg_added (strip line) es) c2)"
    using s ask a' by (simp add: handle_add_vehicle_unfold [OF assms(2)])
  with a' l show "\<exists>a'. handle_add_vehicle rt a c = Inr (a', print (msg_added (strip line) es) c2)
      \<and> add_vehicle rt a (strip line) es = Inr a'
      \<and> last (heap a') = Vehicle (strip line) es"
    by blast
qed

text \<open>
  Claim C5, as amended. When the stripped name is empty, or the stripped selection is
  not accepted by \<open>isdigit\<close>, or it converts to a number outside 1..4,
  \<open>_handle_add_vehicle\<close> prints the matching message once and returns to the caller (the
  main menu) with the registry unchanged; it does not ask again, and the lines that
  follow stay unread.
\<close>

theorem rejected_input_returns:
  assumes "stdin c = line # rest"
  shows "(strip line = [] \<longrightarrow>
            handle_add_vehicle rt a c
              = Inr (a, c\<lparr>stdin := rest,
                           stdout := stdout c @ [Prompt prompt_name, Print msg_empty_name]\<rparr>))
       \<and> (\<forall>sel rest'.
            strip line \<noteq> [] \<and> rest = sel # rest' \<and> \<not> isdigit (strip sel) \<longrightarrow>
            handle_add_vehicle rt a c
              = Inr (a, c\<lparr>stdin := rest',
                           stdout := stdout c @ [Prompt prompt_name, Print msg_choose_source]
                             @ map (\<lambda>(k, s). Print (str k @ [46, 32] @ s)) (zip [1..<5] sources)
                             @ [Prompt prompt_choice, Print msg_need_number]\<rparr>))
       \<and> (\<forall>sel rest' v.
            strip line \<noteq> [] \<and> rest = sel # rest' \<and> isdigit (strip sel)
              \<and> py_int rt (strip sel) = Inr v \<and> (v < 1 \<or> 4 < v) \<longrightarrow>
            handle_add_vehicle rt a c
              = Inr (a, c\<lparr>stdin := rest',
                           stdout := stdout c @ [Prompt prompt_name, Print msg_choose_source]
                             @ map (\<lambda>(k, s). Print (str k @ [46, 32] @ s)) (zip [1..<5] sources)
                             @ [Prompt prompt_choice, Print msg_no_such_source]\<rparr>))"
proof (intro conjI allI impI)
  assume "strip line = []"
  then show "handle_add_vehicle rt a c
      = Inr (a, c\<lparr>stdin := rest,
                   stdout := stdout c @ [Prompt prompt_name, Print msg_empty_name]\<rparr>)"
    by (simp add: handle_add_vehicle_unfold [OF assms] print_def)
next
  fix sel rest'
  assume h: "strip line \<noteq> [] \<and> rest = sel # rest' \<and> \<not> isdigit (strip sel)"
  let ?c1 = "c\<lparr>stdin := rest, stdout := stdout c @ [Prompt prompt_name]\<rparr>"
  from h have "stdin ?c1 = sel # rest'" by simp
  from ask_energy_source_unfold [OF this, of rt] h
  have "ask_energy_source rt ?c1
      = Inr (None, c\<lparr>stdin := rest',
                   stdout := stdout c @ [Prompt prompt_name, Print msg_choose_source]
                     @ map (\<lambda>(k, s). Print (str k @ [46, 32] @ s)) (zip [1..<5] sources)
                     @ [Prompt prompt_choice, Print msg_need_number]\<rparr>)"
    by (simp add: print_def)
  with h show "handle_add_vehicle rt a c
      = Inr (a, c\<lparr>stdin := rest',
                   stdout := stdout c @ [Prompt prompt_name, Print msg_choose_source]
                     @ map (\<lambda>(k, s). Print (str k @ [46, 32] @ s)) (zip [1..<5] sources)
                     @ [Prompt prompt_choice, Print msg_need_number]\<rparr>)"
    by (simp add: handle_add_vehicle_unfold [OF assms])
next
  fix sel rest' v
  assume h: "strip line \<noteq> [] \<and> rest = sel # rest' \<and> isdigit (strip sel)
      \<and> py_int rt (strip sel) = Inr v \<and> (v < 1 \<or> 4 < v)"
  let ?c1 = "c\<lparr>stdin := rest, stdout := stdout c @ [Prompt prompt_name]\<rparr>"
  from h have "stdin ?c1 = sel # rest'" by simp
  from ask_energy_source_unfold [OF this, of rt] h
  have "ask_energy_source rt ?c1
      = Inr (None, c\<lparr>stdin := rest',
                   stdout := stdout c @ [Prompt prompt_name, Print msg_choose_source]
                     @ map (\<lambda>(k, s). Print (str k @ [46, 32] @ s)) (zip [1..<5] sources)
                     @ [Prompt prompt_choice, Print msg_no_such_source]\<rparr>)"
    by (auto simp: print_def)
  with h show "handle_add_vehicle rt a c
      = Inr (a, c\<lparr>stdin := rest',
                   stdout := stdout c @ [Prompt prompt_name, Print msg_choose_source]
                     @ map (\<lambda>(k, s). Print (str k @ [46, 32] @ s)) (zip [1..<5] sources)
                     @ [Prompt prompt_choice, Print msg_no_such_source]\<rparr>)"
    by (simp add: handle_add_vehicle_unfold [OF assms])
qed






theorem name_is_stripped_witness:
  "handle_add_vehicle cpython init_app \<lparr>stdin = [[32, 9, 160], [51]], stdout = []\<rparr>
     = Inr (init_app, \<lparr>stdin = [[51]], stdout = [Prompt prompt_name, Print msg_empty_name]\<rparr>)
   \<and> handle_add_vehicle cpython init_app \<lparr>stdin = [[32, 66, 49, 32], [51]], stdout = []\<rparr>
     = Inr (\<lparr>heap =
              [FleetGroup [1040, 1074, 1090, 1086, 1087, 1072, 1088, 1082] [1],
               FleetGroup [1043, 1072, 1079] [2],
               Vehicle [66, 49] [1075, 1072, 1079]],
              root_group = 0, energy_groups = [([1075, 1072, 1079], 1)]\<rparr>,
            print (msg_added [66, 49] [1075, 1072, 1079])
              \<lparr>stdin = [],
               stdout = [Prompt prompt_name, Print msg_choose_source,
                         Print ([49, 46, 32] @ sources ! 0), Print ([50, 46, 32] @ sources ! 1),
                         Print ([51, 46, 32] @ sources ! 2), Print ([52, 46, 32] @ sources ! 3),
                         Prompt prompt_choice]\<rparr>)"
proof -
  let ?k = "\<lparr>stdin = [[32, 9, 160], [51]], stdout = []\<rparr>"
  let ?c = "\<lparr>stdin = [[32, 66, 49, 32], [51]], stdout = []\<rparr>"
  let ?c2 = "\<lparr>stdin = [],
               stdout = [Prompt prompt_name, Print msg_choose_source,
                         Print ([49, 46, 32] @ sources ! 0), Print ([50, 46, 32] @ sources ! 1),
                         Print ([51, 46, 32] @ sources ! 2), Print ([52, 46, 32] @ sources ! 3),
                         Prompt prompt_choice]\<rparr>"
  let ?a' = "\<lparr>heap =
              [FleetGroup [1040, 1074, 1090, 1086, 1087, 1072, 1088, 1082] [1],
               FleetGroup [1043, 1072, 1079] [2],
               Vehicle [66, 49] [1075, 1072, 1079]],
              root_group = 0, energy_groups = [([1075, 1072, 1079], 1)]\<rparr>"
  have e: "exec_calls cpython init_app [] = Inr init_app" by simp
  have s0: "stdin ?k = [32, 9, 160] # [[51]]" by simp
  have s: "stdin ?c = [32, 66, 49, 32] # [[51]]" by simp
  have w0: "list_all py_isspace [32, 9, 160]" by (simp add: py_isspace_def)
  have w: "\<not> list_all py_isspace [32, 66, 49, 32]" by (simp add: py_isspace_def)
  have st: "strip [32, 66, 49, 32] = [66, 49]" by (simp add: eval_defs)
  have ask: "ask_energy_source cpython (?c\<lparr>stdin := [[51]], stdout := stdout ?c @ [Prompt prompt_name]\<rparr>)
      = Inr (Some [1075, 1072, 1079], ?c2)"
    by (simp add: eval_defs)
  have add: "add_vehicle cpython init_app [66, 49] [1075, 1072, 1079] = Inr ?a'"
    by (simp add: eval_defs)
  from name_is_stripped [OF e s0] w0
  have 1: "handle_add_vehicle cpython init_app ?k
      = Inr (init_app, \<lparr>stdin = [[51]], stdout = [Prompt prompt_name, Print msg_empty_name]\<rparr>)"
    by simp
  from name_is_stripped [OF e s] w ask
  have "\<exists>a'. handle_add_vehicle cpython init_app ?c
          = Inr (a', print (msg_added (strip [32, 66, 49, 32]) [1075, 1072, 1079]) ?c2)
        \<and> add_vehicle cpython init_app (strip [32, 66, 49, 32]) [1075, 1072, 1079] = Inr a'
        \<and> last (heap a') = Vehicle (strip [32, 66, 49, 32]) [1075, 1072, 1079]"
    by blast
  then have 2: "handle_add_vehicle cpython init_app ?c
      = Inr (?a', print (msg_added [66, 49] [1075, 1072, 1079]) ?c2)"
    unfolding st add by blast
  from 1 2 show ?thesis by (rule conjI)
qed

theorem rejected_input_returns_witness:
  "handle_add_vehicle cpython init_app \<lparr>stdin = [[66, 49], [120], [49]], stdout = []\<rparr>
     = Inr (init_app,
            \<lparr>stdin = [[49]],
             stdout = [Prompt prompt_name, Print msg_choose_source,
                       Print ([49, 46, 32] @ sources ! 0), Print ([50, 46, 32] @ sources ! 1),
                       Print ([51, 46, 32] @ sources ! 2), Print ([52, 46, 32] @ sources ! 3),
                       Prompt prompt_choice, Print msg_need_number]\<rparr>)
   \<and> handle_add_vehicle cpython init_app \<lparr>stdin = [[66, 49], [55], [49]], stdout = []\<rparr>
     = Inr (init_app,
            \<lparr>stdin = [[49]],
             stdout = [Prompt prompt_name, Print msg_choose_source,
                       Print ([49, 46, 32] @ sources ! 0), Print ([50, 46, 32] @ sources ! 1),
                       Print ([51, 46, 32] @ sources ! 2), Print ([52, 46, 32] @ sources ! 3),
                       Prompt prompt_choice, Print msg_no_such_source]\<rparr>)"
proof -
  let ?c = "\<lparr>stdin = [[66, 49], [120], [49]], stdout = []\<rparr>"
  let ?d = "\<lparr>stdin = [[66, 49], [55], [49]], stdout = []\<rparr>"
  have sc: "stdin ?c = [66, 49] # [[120], [49]]" by simp
  have sd: "stdin ?d = [66, 49] # [[55], [49]]" by simp
  have n: "strip [66, 49] \<noteq> []" by (simp add: eval_defs)
  have x: "\<not> isdigit (strip [120])" by (simp add: eval_defs)
  have d7: "isdigit (strip [55])" by (simp add: eval_defs)
  have i7: "py_int cpython (strip [55]) = Inr 7" by (simp add: eval_defs)
  note menu = menu_events
  from rejected_input_returns [OF sc, of cpython init_app] n x
  have 1: "handle_add_vehicle cpython init_app ?c
     = Inr (init_app, ?c\<lparr>stdin := [[49]],
             stdout := stdout ?c @ [Prompt prompt_name, Print msg_choose_source]
               @ map (\<lambda>(k, s). Print (str k @ [46, 32] @ s)) (zip [1..<5] sources)
               @ [Prompt prompt_choice, Print msg_need_number]\<rparr>)"
    by blast
  from rejected_input_returns [OF sd, of cpython init_app] n d7 i7
  have 2: "handle_add_vehicle cpython init_app ?d
     = Inr (init_app, ?d\<lparr>stdin := [[49]],
             stdout := stdout ?d @ [Prompt prompt_name, Print msg_choose_source]
               @ map (\<lambda>(k, s). Print (str k @ [46, 32] @ s)) (zip [1..<5] sources)
               @ [Prompt prompt_choice, Print msg_no_such_source]\<rparr>)"
    by force
  from 1 2 show ?thesis unfolding menu by simp
qed

text \<open>
  Claim C5 as stated fails: after an empty name, \<open>_handle_add_vehicle\<close> returns with
  the name prompt issued once and the next line still unread; in a whole run that line
  (here "B1") is then taken by the main menu as an unknown command, and no vehicle is
  added.
\<close>

theorem rejected_input_reprompt_counterexample:
  "handle_add_vehicle cpython init_app \<lparr>stdin = [[], [66, 49], [51]], stdout = []\<rparr>
     = Inr (init_app,
            \<lparr>stdin = [[66, 49], [51]], stdout = [Prompt prompt_name, Print msg_empty_name]\<rparr>)
   \<and> main cpython [[49], [], [66, 49], [51]]
     = Inr (init_app,
            \<lparr>stdin = [],
             stdout = [Print msg_welcome,
                       Print msg_choose_action, Print msg_menu_add, Print msg_menu_show,
                       Print msg_menu_exit, Prompt prompt_choice,
                       Prompt prompt_name, Print msg_empty_name,
                       Print msg_choose_action, Print msg_menu_add, Print msg_menu_show,
                       Print msg_menu_exit, Prompt prompt_choice,
                       Print msg_unknown_command,
                       Print msg_choose_action, Print msg_menu_add, Print msg_menu_show,
                       Print msg_menu_exit, Prompt prompt_choice,
                       Print msg_goodbye]\<rparr>)"
  by (simp add: eval_defs run_loop.simps)



text \<open>
  Claim C8 fails on the code. The selection "superscript two" (U+00B2) is accepted by
  \<open>isdigit\<close> on line 104, and \<open>int\<close> on line 107 raises \<open>ValueError\<close> for it; nothing
  catches the exception, so it leaves \<open>_handle_add_vehicle\<close>, \<open>run\<close> and \<open>main\<close>, on every
  interpreter.
\<close>

theorem superscript_selection_raises:
  "handle_add_vehicle rt a \<lparr>stdin = [66, 49] # [178] # rest, stdout = out\<rparr> = Inl ValueError
   \<and> main rt ([49] # [66, 49] # [178] # rest) = Inl ValueError"
proof -
  have s1: "strip [66, 49] = [66, 49]" and s2: "strip [178] = [178]" and s3: "strip [49] = [49]"
    by (simp_all add: strip_def py_isspace_def)
  have d: "isdigit [178]"
    by (simp add: isdigit_def char_isdigit_def digit_only_ranges_def)
  have i: "py_int rt [178] = Inl ValueError"
    by (simp add: py_int_def decimal_value_def decimal_zeros_def)
  have ask: "ask_energy_source rt \<lparr>stdin = [178] # rest, stdout = out'\<rparr> = Inl ValueError" for out'
    by (simp add: ask_energy_source_unfold [of _ "[178]" rest] s2 d i)
  have h: "handle_add_vehicle rt a' \<lparr>stdin = [66, 49] # [178] # rest, stdout = out'\<rparr>
      = Inl ValueError" for a' out'
    by (simp add: handle_add_vehicle_unfold [of _ "[66, 49]" "[178] # rest"] s1 ask)
  have m: "main rt ([49] # [66, 49] # [178] # rest) = Inl ValueError"
    by (simp add: main_def run_def run_loop.simps [of rt init_app] input_def print_def s3 h)
  from h m show ?thesis by (rule conjI)
qed

end
